theory Spec2Isabelle
  imports Complex_Main "HOL-Library.Sublist"
begin

section \<open>JavaScript values used by the detector\<close>

text \<open>
  A JavaScript string is modelled as the list of its UTF-16 code units, for code units
  below 256 (the Latin-1 range), so that one \<^typ>\<open>char\<close> is one code unit. A
  JavaScript number is modelled by \<open>jsnum\<close>: the exact rational value, the two
  infinities, or NaN. Rounding to IEEE doubles and the sign of zero are not modelled.
\<close>

datatype jsnum = NaN | Fin rat | PInf | NInf

text \<open>The relational operator \<open>a >= b\<close> of JavaScript on numbers: false as soon as one
  side is NaN.\<close>

fun js_ge :: "jsnum \<Rightarrow> jsnum \<Rightarrow> bool" where
  "js_ge NaN b = False"
| "js_ge a NaN = False"
| "js_ge PInf b = True"
| "js_ge a NInf = True"
| "js_ge NInf b = False"
| "js_ge (Fin a) PInf = False"
| "js_ge (Fin a) (Fin b) = (b \<le> a)"

text \<open>\<open>x && x > 0\<close> for a number \<open>x\<close>: truthy (neither NaN nor zero) and positive.\<close>

fun js_truthy_pos :: "jsnum \<Rightarrow> bool" where
  "js_truthy_pos (Fin q) = (q \<noteq> 0 \<and> 0 < q)"
| "js_truthy_pos PInf = True"
| "js_truthy_pos NaN = False"
| "js_truthy_pos NInf = False"

text \<open>\<open>xs.slice(0, k)\<close> for a positive \<open>k\<close>: the end index is truncated to an
  integer and clamped to the length.\<close>

fun slice0 :: "jsnum \<Rightarrow> 'a list \<Rightarrow> 'a list" where
  "slice0 (Fin q) xs = take (nat \<lfloor>q\<rfloor>) xs"
| "slice0 PInf xs = xs"
| "slice0 NaN xs = []"
| "slice0 NInf xs = []"

subsection \<open>Strings\<close>

text \<open>The white space and line terminators of ECMAScript (what \<open>\s\<close> matches and
  what \<open>trim\<close> removes) among the code units below 256: TAB, LF, VT, FF, CR, SP and
  NBSP.\<close>

definition isWhiteSpace :: "char \<Rightarrow> bool" where
  "isWhiteSpace c = (of_char c \<in> set [9, 10, 11, 12, 13, 32, 160 :: nat])"

definition trim :: "string \<Rightarrow> string" where
  "trim s = rev (dropWhile isWhiteSpace (rev (dropWhile isWhiteSpace s)))"

text \<open>\<open>s.split(/\s+/)\<close>: the pieces between the maximal runs of white space. A run at
  the start or at the end leaves an empty piece there, and the empty string gives one
  empty piece.\<close>

function split_ws :: "string \<Rightarrow> string list" where
  "split_ws s =
     (let tok = takeWhile (\<lambda>c. \<not> isWhiteSpace c) s;
          rest = dropWhile (\<lambda>c. \<not> isWhiteSpace c) s
      in if rest = [] then [tok] else tok # split_ws (dropWhile isWhiteSpace rest))"
  by pat_completeness auto
termination
proof (relation "measure length")
  show "wf (measure length)" by simp
next
  fix s :: string and tok rest
  assume r: "rest = dropWhile (\<lambda>c. \<not> isWhiteSpace c) s" and ne: "rest \<noteq> []"
  from ne obtain c cs where cs: "rest = c # cs" by (cases rest) auto
  have "\<not> \<not> isWhiteSpace (hd (dropWhile (\<lambda>c. \<not> isWhiteSpace c) s))"
    using ne unfolding r by (rule hd_dropWhile)
  then have "isWhiteSpace c"
    using r cs by (metis list.sel(1))
  then have "length (dropWhile isWhiteSpace rest) \<le> length cs"
    using cs by (simp add: length_dropWhile_le)
  also have "\<dots> < length rest" using cs by simp
  also have "\<dots> \<le> length s" unfolding r by (rule length_dropWhile_le)
  finally show "(dropWhile isWhiteSpace rest, s) \<in> measure length" by simp
qed

declare split_ws.simps [simp del]

text \<open>\<open>s.replace(pat, rep)\<close> with a string pattern: the first occurrence of \<open>pat\<close>,
  wherever it stands, is replaced (the replacement used by the source is the empty
  string, which has no \<open>$\<close> pattern).\<close>

fun replace_first :: "string \<Rightarrow> string \<Rightarrow> string \<Rightarrow> string" where
  "replace_first pat rep [] = (if pat = [] then rep else [])"
| "replace_first pat rep (c # cs) =
     (if prefix pat (c # cs) then rep @ drop (length pat) (c # cs)
      else c # replace_first pat rep cs)"

text \<open>\<open>toLowerCase\<close> on the code units below 256: \<open>A\<close>-\<open>Z\<close> and the capital
  letters U+00C0 to U+00DE (but the multiplication sign U+00D7) move up by 32.\<close>

definition lower_char :: "char \<Rightarrow> char" where
  "lower_char c =
     (let n = (of_char c :: nat)
      in if (65 \<le> n \<and> n \<le> 90) \<or> (192 \<le> n \<and> n \<le> 222 \<and> n \<noteq> 215)
         then char_of (n + 32) else c)"

definition toLowerCase :: "string \<Rightarrow> string" where
  "toLowerCase s = map lower_char s"

subsection \<open>parseFloat\<close>

text \<open>\<open>parseFloat\<close> reads the longest prefix of its argument, after leading white
  space, that is a decimal literal: an optional sign, then \<open>Infinity\<close> or digits with
  an optional fraction and an optional exponent. With no such prefix the result is
  NaN.\<close>

definition isDigit :: "char \<Rightarrow> bool" where
  "isDigit c = (48 \<le> (of_char c :: nat) \<and> (of_char c :: nat) \<le> 57)"

definition digits_val :: "string \<Rightarrow> nat" where
  "digits_val ds = foldl (\<lambda>a c. 10 * a + ((of_char c :: nat) - 48)) 0 ds"

definition pow10 :: "int \<Rightarrow> rat" where
  "pow10 e = (if 0 \<le> e then 10 ^ nat e else 1 / 10 ^ nat (- e))"

text \<open>The exponent part at the head of \<open>s\<close>: \<open>e\<close> or \<open>E\<close>, an optional sign and at
  least one digit; anything else is no exponent.\<close>

definition exponent_part :: "string \<Rightarrow> int" where
  "exponent_part s =
     (case s of
        [] \<Rightarrow> 0
      | c # r \<Rightarrow>
          if c = CHR ''e'' \<or> c = CHR ''E'' then
            (let (neg, u) = (case r of
                               [] \<Rightarrow> (False, r)
                             | d # r' \<Rightarrow> if d = CHR ''-'' then (True, r')
                                        else if d = CHR ''+'' then (False, r') else (False, r));
                 ds = takeWhile isDigit u
             in if ds = [] then 0
                else if neg then - int (digits_val ds) else int (digits_val ds))
          else 0)"

definition parseFloat :: "string \<Rightarrow> jsnum" where
  "parseFloat s =
     (let t = dropWhile isWhiteSpace s;
          (neg, u) = (case t of
                        [] \<Rightarrow> (False, t)
                      | c # r \<Rightarrow> if c = CHR ''-'' then (True, r)
                                 else if c = CHR ''+'' then (False, r) else (False, t))
      in if prefix ''Infinity'' u then (if neg then NInf else PInf)
         else
           (let ip = takeWhile isDigit u;
                r1 = dropWhile isDigit u;
                (fp, r2) = (case r1 of
                              [] \<Rightarrow> ([], r1)
                            | c # r \<Rightarrow> if c = CHR ''.''
                                       then (takeWhile isDigit r, dropWhile isDigit r)
                                       else ([], r1))
            in if ip = [] \<and> fp = [] then NaN
               else
                 (let m = of_nat (digits_val ip) + of_nat (digits_val fp) / 10 ^ length fp;
                      v = m * pow10 (exponent_part r2)
                  in Fin (if neg then - v else v))))"

section \<open>Predictions and detection results (types.ts)\<close>

record prediction =
  language :: string
  confidence :: jsnum
  languageName :: "string option"

record detection_result =
  predictions :: "prediction list"
  primary :: "prediction option"

record detection_options =
  threshold :: "jsnum option"
  topK :: "jsnum option"
  includeLanguageName :: "bool option"
  returnAll :: "bool option"

text \<open>The options object \<open>{}\<close>, the default of \<open>detect\<close>.\<close>

definition no_options :: detection_options where
  "no_options = \<lparr>threshold = None, topK = None, includeLanguageName = None, returnAll = None\<rparr>"

text \<open>\<open>predictions.length > 0 ? predictions[0] : null\<close>\<close>

definition first_or_null :: "'a list \<Rightarrow> 'a option" where
  "first_or_null xs = (case xs of [] \<Rightarrow> None | x # _ \<Rightarrow> Some x)"

section \<open>The worker's output line (worker.ts, parseResult)\<close>

definition label_language :: "string \<Rightarrow> string" where
  "label_language label =
     (let languageCode = toLowerCase (replace_first ''__label__'' [] label)
      in if languageCode = ''zh'' then ''chs'' else languageCode)"

text \<open>The loop of \<open>parseResult\<close>: \<open>i\<close> steps by two over the pieces; \<open>parts[i + 1]\<close>
  is \<open>undefined\<close> beyond the end; a pair is pushed when both tokens are truthy, that is,
  present and not empty.\<close>

function parseLoop :: "string list \<Rightarrow> nat \<Rightarrow> prediction list \<Rightarrow> prediction list" where
  "parseLoop parts i acc =
     (if i < length parts then
        (let label = parts ! i;
             conf = (if i + 1 < length parts then Some (parts ! (i + 1)) else None)
         in parseLoop parts (i + 2)
              (case conf of
                 None \<Rightarrow> acc
               | Some c \<Rightarrow>
                   if label \<noteq> [] \<and> c \<noteq> []
                   then acc @ [\<lparr>language = label_language label,
                                confidence = parseFloat c, languageName = None\<rparr>]
                   else acc))
      else acc)"
  by pat_completeness auto
termination
  by (relation "measure (\<lambda>(parts, i, acc). length parts - i)") auto

declare parseLoop.simps [simp del]

definition parseResult :: "string \<Rightarrow> prediction list" where
  "parseResult result = parseLoop (split_ws result) 0 []"

section \<open>Post-processing (detector.ts, applyOptions)\<close>

text \<open>\<open>getLanguageName\<close> lives in language-names.ts, which is not among the sources;
  it is a parameter \<open>gn\<close> of everything that calls it.\<close>

definition applyOptions ::
  "(string \<Rightarrow> string) \<Rightarrow> detection_result \<Rightarrow> detection_options \<Rightarrow> detection_result" where
  "applyOptions gn res options =
     (let ps0 = predictions res;
          ps1 = (case threshold options of
                   None \<Rightarrow> ps0
                 | Some t \<Rightarrow> filter (\<lambda>p. js_ge (confidence p) t) ps0);
          ps2 = (case topK options of
                   None \<Rightarrow> ps1
                 | Some k \<Rightarrow> if js_truthy_pos k then slice0 k ps1 else ps1);
          ps3 = (if includeLanguageName options = Some True
                 then map (\<lambda>p. p\<lparr>languageName := Some (gn (language p))\<rparr>) ps2
                 else ps2);
          ps4 = (case primary res of
                   None \<Rightarrow> ps3
                 | Some pr \<Rightarrow> if returnAll options = Some False then [pr] else ps3)
      in \<lparr>predictions = ps4, primary = first_or_null ps4\<rparr>)"

section \<open>The result cache (cache.ts)\<close>

text \<open>A JavaScript \<open>Map\<close> keeps its keys in insertion order: it is an association
  list with distinct keys. \<open>set\<close> on a present key replaces the value where it stands;
  on an absent key it appends. The constructor takes \<open>maxSize\<close> and \<open>ttl\<close> as numbers
  and stores them as they are: they are finite numbers here, with their exact rational
  value, so that a fraction such as 2.5 is a size like any other (NaN and the infinities
  are left out).\<close>

record cache_entry =
  result :: detection_result
  timestamp :: int

type_synonym entry_map = "(string \<times> cache_entry) list"

fun map_set :: "string \<Rightarrow> cache_entry \<Rightarrow> entry_map \<Rightarrow> entry_map" where
  "map_set k v [] = [(k, v)]"
| "map_set k v ((k', v') # m) = (if k' = k then (k, v) # m else (k', v') # map_set k v m)"

definition map_delete :: "string \<Rightarrow> entry_map \<Rightarrow> entry_map" where
  "map_delete k m = filter (\<lambda>(k', v). k' \<noteq> k) m"

record detection_cache =
  entries :: entry_map
  maxSize :: rat
  ttl :: rat

definition new_cache :: "rat \<Rightarrow> rat \<Rightarrow> detection_cache" where
  "new_cache sz t = \<lparr>entries = [], maxSize = sz, ttl = t\<rparr>"

text \<open>\<open>get(text)\<close> at clock reading \<open>now\<close>: the result and the cache, from which an
  expired entry has been deleted.\<close>

definition cache_get ::
  "detection_cache \<Rightarrow> string \<Rightarrow> int \<Rightarrow> detection_result option \<times> detection_cache" where
  "cache_get c txt now =
     (case map_of (entries c) txt of
        None \<Rightarrow> (None, c)
      | Some e \<Rightarrow>
          if of_int (now - timestamp e) > ttl c
          then (None, c\<lparr>entries := map_delete txt (entries c)\<rparr>)
          else (Some (result e), c))"

text \<open>\<open>set(text, result)\<close> at clock reading \<open>now\<close>. The first key is deleted when the
  size has reached \<open>maxSize\<close> and the key is truthy (a string that is not empty).\<close>

definition cache_set ::
  "detection_cache \<Rightarrow> string \<Rightarrow> detection_result \<Rightarrow> int \<Rightarrow> detection_cache" where
  "cache_set c txt res now =
     (let es = (if of_nat (length (entries c)) \<ge> maxSize c
                then (case entries c of
                        [] \<Rightarrow> entries c
                      | (firstKey, v) # rest \<Rightarrow>
                          if firstKey \<noteq> [] then map_delete firstKey (entries c)
                          else entries c)
                else entries c)
      in c\<lparr>entries := map_set txt \<lparr>result = res, timestamp = now\<rparr> es\<rparr>)"

section \<open>Errors, outcomes, effects and the environment\<close>

datatype error =
    ModelNotLoaded
  | QueueFull rat
  | ShuttingDown
  | AlreadyLoading
  | ModelNotFound
  | BinaryMissing
  | WorkerNotReady nat
  | WorkerBusy nat
  | StreamsUnavailable nat
  | WorkerTimeout nat
  | WorkerStartFailed nat
  | SystemError string

datatype outcome = Resolved detection_result | Rejected error

datatype signal = SIGTERM | SIGKILL

text \<open>What a turn of the program does to the outside. Callers are told apart by a number
  that stands for the \<open>resolve\<close>/\<open>reject\<close> pair of the promise that \<open>detect\<close> returned
  to them; workers by their address in the heap or by their id; processes by their pid.
  \<^item> \<open>Settled c out\<close>: the promise of caller \<open>c\<close> settles with \<open>out\<close>;
  \<^item> \<open>Enqueued c\<close>: the request of caller \<open>c\<close> is pushed on the queue;
  \<^item> \<open>Dispatched c a\<close>: the request of caller \<open>c\<close> is passed to \<open>executeRequest\<close> with
    the worker at address \<open>a\<close>;
  \<^item> \<open>WriteLine p l\<close>, \<open>EndInput p\<close>, \<open>Kill p sg\<close>: the line \<open>l\<close> is written to the input
    of process \<open>p\<close>, its input is closed, it is sent the signal \<open>sg\<close>;
  \<^item> \<open>Spawned i p\<close>: the worker of id \<open>i\<close> has spawned process \<open>p\<close>;
  \<^item> \<open>Restarting i\<close>, \<open>RetryScheduled i\<close>: \<open>restartWorker(i)\<close> has gone past its check of
    the loaded flag; a retry of it has been scheduled;
  \<^item> \<open>LoadSettled r\<close>, \<open>UnloadSettled\<close>: the promise of \<open>load()\<close> settles (with an error
    or without), the promise of \<open>unload()\<close> resolves.\<close>

datatype action =
    Settled nat outcome
  | Enqueued nat
  | Dispatched nat nat
  | WriteLine nat string
  | EndInput nat
  | Kill nat signal
  | Spawned nat nat
  | Restarting nat
  | RetryScheduled nat
  | LoadSettled "error option"
  | UnloadSettled

text \<open>A handle of a child process, as \<open>spawn\<close> returns it: \<open>hasStreams\<close> tells
  whether its \<open>stdin\<close> and \<open>stdout\<close> exist.\<close>

record child =
  pid :: nat
  killed :: bool
  hasStreams :: bool

text \<open>What a turn reads from the outside: the clock at its first and at its second
  reading, the handle \<open>spawn\<close> returns for the worker of a given id, and the two checks
  of \<open>load\<close> (the model file exists, the binary is installed).\<close>

record env =
  clock :: int
  clock2 :: int
  spawn :: "nat \<Rightarrow> child"
  modelExists :: bool
  binaryFound :: bool

section \<open>The worker (worker.ts)\<close>

record worker =
  wid :: nat
  process :: "child option"
  isReady :: bool
  isBusy :: bool
  processedRequests :: nat
  wtimeout :: rat

datatype wevent = EvReady | EvError error | EvExit

definition new_worker :: "nat \<Rightarrow> rat \<Rightarrow> worker" where
  "new_worker i t =
     \<lparr>wid = i, process = None, isReady = False, isBusy = False, processedRequests = 0,
      wtimeout = t\<rparr>"

text \<open>\<open>start()\<close> up to the point where its promise is returned: the process is spawned
  and the handlers and the start timer are registered.\<close>

definition worker_start :: "env \<Rightarrow> worker \<Rightarrow> worker \<times> action list" where
  "worker_start e w =
     (let c = spawn e (wid w) in (w\<lparr>process := Some c\<rparr>, [Spawned (wid w) (pid c)]))"

text \<open>The callbacks of a worker. Each returns the worker, the events it emits to its
  listeners and, where it settles a promise, how.\<close>

definition worker_onStartTimer :: "worker \<Rightarrow> worker \<times> wevent list \<times> error option" where
  "worker_onStartTimer w =
     (case process w of
        None \<Rightarrow> (w, [], Some (WorkerStartFailed (wid w)))
      | Some c \<Rightarrow>
          if \<not> killed c then (w\<lparr>isReady := True\<rparr>, [EvReady], None)
          else (w, [], Some (WorkerStartFailed (wid w))))"

definition worker_onProcessError :: "worker \<Rightarrow> error \<Rightarrow> worker \<times> wevent list \<times> error" where
  "worker_onProcessError w err = (w\<lparr>isReady := False\<rparr>, [EvError err], err)"

definition worker_onProcessExit :: "worker \<Rightarrow> worker \<times> wevent list" where
  "worker_onProcessExit w = (w\<lparr>isReady := False\<rparr>, [EvExit])"

text \<open>The line written for a text: line breaks become spaces, the text is trimmed and
  cut to 5000 code units.\<close>

definition clean_text :: "string \<Rightarrow> string" where
  "clean_text txt =
     take 5000 (trim (map (\<lambda>c. if c = CHR 0x0D then CHR '' '' else c)
                        (map (\<lambda>c. if c = CHR 0x0A then CHR '' '' else c) txt)))"

text \<open>\<open>detect(text)\<close> up to the point where its promise is returned: the three checks,
  then the busy flag, the timer, the listener and the write.\<close>

definition worker_detect :: "worker \<Rightarrow> string \<Rightarrow> error + worker \<times> action list" where
  "worker_detect w txt =
     (if \<not> isReady w then Inl (WorkerNotReady (wid w))
      else if isBusy w then Inl (WorkerBusy (wid w))
      else
        (case process w of
           None \<Rightarrow> Inl (StreamsUnavailable (wid w))
         | Some c \<Rightarrow>
             if \<not> hasStreams c then Inl (StreamsUnavailable (wid w))
             else Inr (w\<lparr>isBusy := True\<rparr>, [WriteLine (pid c) (clean_text txt @ [CHR 0x0A])])))"

text \<open>The result that the data callback builds from the output of the process.\<close>

definition data_result :: "string \<Rightarrow> detection_result" where
  "data_result dat =
     (let ps = parseResult (trim dat) in \<lparr>predictions = ps, primary = first_or_null ps\<rparr>)"

definition worker_onData :: "worker \<Rightarrow> string \<Rightarrow> worker \<times> wevent list \<times> outcome" where
  "worker_onData w dat =
     (w\<lparr>isBusy := False, processedRequests := processedRequests w + 1\<rparr>, [],
      Resolved (data_result dat))"

definition worker_onTimeout :: "worker \<Rightarrow> worker \<times> wevent list \<times> outcome" where
  "worker_onTimeout w = (w\<lparr>isBusy := False\<rparr>, [], Rejected (WorkerTimeout (wid w)))"

definition worker_onWriteError :: "worker \<Rightarrow> error \<Rightarrow> worker \<times> wevent list \<times> outcome" where
  "worker_onWriteError w err = (w\<lparr>isBusy := False\<rparr>, [], Rejected err)"

definition worker_stop :: "worker \<Rightarrow> worker \<times> action list" where
  "worker_stop w =
     (case process w of
        None \<Rightarrow> (w, [])
      | Some c \<Rightarrow>
          (w\<lparr>process := None, isReady := False\<rparr>,
           (if hasStreams c then [EndInput (pid c)] else []) @
           (if killed c then [] else [Kill (pid c) SIGTERM])))"

text \<open>The timer that \<open>stop()\<close> leaves behind: it acts on the handle the worker holds when
  it fires.\<close>

definition worker_onKillTimer :: "worker \<Rightarrow> worker \<times> action list" where
  "worker_onKillTimer w =
     (w\<lparr>process := None\<rparr>,
      (case process w of
         None \<Rightarrow> []
       | Some c \<Rightarrow> if \<not> killed c then [Kill (pid c) SIGKILL] else []))"

section \<open>The detector (detector.ts)\<close>

text \<open>A queued request holds the text, the \<open>resolve\<close>/\<open>reject\<close> pair of the promise
  that \<open>detect\<close> awaits, and the time of the call. The pair is a closure of that call of
  \<open>detect\<close>: it is modelled by the caller's number and by the options of the call,
  which the rest of \<open>detect\<close> uses once the promise settles.\<close>

record queued_request =
  rtext :: string
  caller :: nat
  reqOptions :: detection_options
  startTime :: int

record pool_statistics =
  totalRequests :: int
  completedRequests :: int
  failedRequests :: int
  queuedRequests :: int
  averageResponseTime :: rat
  statPoolSize :: rat
  activeWorkers :: int
  busyWorkers :: int
  idleWorkers :: int
  queueLength :: int

text \<open>The detector. Worker objects live in \<open>heap\<close>, at the address that is their index;
  \<open>workers\<close> is the array of the pool and holds addresses, so that a worker dropped from
  the pool by \<open>unload\<close> still exists for the timers that hold it. \<open>inflight\<close> holds the
  calls of \<open>executeRequest\<close> that await a worker's answer, by the worker's address. The
  model path, the logger and the exit hooks of \<open>autoCleanup\<close> are left out. The
  numbers of the configuration (\<open>poolSize\<close>, \<open>maxQueueSize\<close>, \<open>timeout\<close>, \<open>cacheSize\<close>,
  \<open>cacheTTL\<close>) are whatever finite number the caller gives, whole or not, with its exact
  rational value; the infinities are left out, and NaN is falsy, so that \<open>||\<close> replaces
  it by the default as it does \<open>undefined\<close>.\<close>

record detector =
  poolSize :: rat
  maxQueueSize :: rat
  timeout :: rat
  cache :: "detection_cache option"
  heap :: "worker list"
  workers :: "nat list"
  requestQueue :: "queued_request list"
  inflight :: "(nat \<times> queued_request) list"
  isLoaded :: bool
  isLoading :: bool
  stats :: pool_statistics

record detector_options =
  optPoolSize :: "rat option"
  optMaxQueueSize :: "rat option"
  optTimeout :: "rat option"
  optCache :: "bool option"
  optCacheSize :: "rat option"
  optCacheTTL :: "rat option"

text \<open>\<open>v || d\<close> for an optional number: \<open>undefined\<close> (and NaN, which is given as
  \<open>None\<close>) and zero give the default.\<close>

definition or_default :: "rat option \<Rightarrow> rat \<Rightarrow> rat" where
  "or_default v d = (case v of None \<Rightarrow> d | Some n \<Rightarrow> if n = 0 then d else n)"

definition new_stats :: pool_statistics where
  "new_stats =
     \<lparr>totalRequests = 0, completedRequests = 0, failedRequests = 0, queuedRequests = 0,
      averageResponseTime = 0, statPoolSize = 0, activeWorkers = 0, busyWorkers = 0,
      idleWorkers = 0, queueLength = 0\<rparr>"

definition new_detector :: "detector_options \<Rightarrow> detector" where
  "new_detector opts =
     \<lparr>poolSize = or_default (optPoolSize opts) 3,
      maxQueueSize = or_default (optMaxQueueSize opts) 500,
      timeout = or_default (optTimeout opts) 5000,
      cache = (if optCache opts = Some True
               then Some (new_cache (or_default (optCacheSize opts) 1000)
                                    (or_default (optCacheTTL opts) 3600000))
               else None),
      heap = [], workers = [], requestQueue = [], inflight = [],
      isLoaded = False, isLoading = False, stats = new_stats\<rparr>"

definition available :: "worker \<Rightarrow> bool" where
  "available w = (isReady w \<and> \<not> isBusy w)"

definition getAvailableWorker :: "detector \<Rightarrow> nat option" where
  "getAvailableWorker s =
     find (\<lambda>a. a < length (heap s) \<and> available (heap s ! a)) (workers s)"

text \<open>The \<open>catch\<close> branch of \<open>executeRequest\<close> but its last line, the call of
  \<open>processQueue\<close>, which is made where \<open>request_failed\<close> is used.\<close>

definition request_failed :: "detector \<Rightarrow> queued_request \<Rightarrow> error \<Rightarrow> detector \<times> action list" where
  "request_failed s req err =
     (s\<lparr>stats := (stats s)\<lparr>failedRequests := failedRequests (stats s) + 1\<rparr>\<rparr>,
      [Settled (caller req) (Rejected err)])"

text \<open>\<open>executeRequest\<close> up to its \<open>await\<close>. When the worker takes the text, the call
  waits in \<open>inflight\<close> (the flag returned is true). When the worker refuses, the \<open>catch\<close>
  branch runs.\<close>

definition executeRequest ::
  "detector \<Rightarrow> nat \<Rightarrow> queued_request \<Rightarrow> detector \<times> action list \<times> bool" where
  "executeRequest s a req =
     (case worker_detect (heap s ! a) (rtext req) of
        Inr (w', acts) \<Rightarrow>
          (s\<lparr>heap := (heap s)[a := w'], inflight := inflight s @ [(a, req)]\<rparr>,
           Dispatched (caller req) a # acts, True)
      | Inl err \<Rightarrow>
          (let (s', acts) = request_failed s req err
           in (s', Dispatched (caller req) a # acts, False)))"

text \<open>The loop of \<open>processQueue\<close>; the second argument is the queue of the state. A
  request the worker refuses runs the \<open>catch\<close> branch of \<open>executeRequest\<close> after the
  loop has ended; its call of \<open>processQueue\<close> then finds the queue empty or no worker
  available, as the loop left them, and does nothing.\<close>

fun drain :: "detector \<Rightarrow> queued_request list \<Rightarrow> detector \<times> action list" where
  "drain s [] = (s, [])"
| "drain s (request # rest) =
     (case getAvailableWorker s of
        None \<Rightarrow> (s, [])
      | Some a \<Rightarrow>
          (let s1 = s\<lparr>requestQueue := rest,
                      stats := (stats s)\<lparr>queuedRequests := queuedRequests (stats s) - 1\<rparr>\<rparr>;
               (s2, acts, ok) = executeRequest s1 a request;
               (s3, acts') = drain s2 rest
           in (s3, acts @ acts')))"

definition processQueue :: "detector \<Rightarrow> detector \<times> action list" where
  "processQueue s = drain s (requestQueue s)"

text \<open>The rest of \<open>executeRequest\<close> after the worker has answered, and with it the rest
  of the call of \<open>detect\<close> that awaits the request: the store in the cache and the
  options.\<close>

definition request_completed ::
  "(string \<Rightarrow> string) \<Rightarrow> env \<Rightarrow> detector \<Rightarrow> queued_request \<Rightarrow> detection_result
     \<Rightarrow> detector \<times> action list" where
  "request_completed gn e s req res =
     (let st = stats s;
          n = completedRequests st + 1;
          responseTime = clock e - startTime req;
          s1 = s\<lparr>stats := st\<lparr>completedRequests := n,
                   averageResponseTime :=
                     (averageResponseTime st * of_int (n - 1) + of_int responseTime) / of_int n\<rparr>\<rparr>;
          (s2, acts) = processQueue s1;
          s3 = (case cache s2 of
                  None \<Rightarrow> s2
                | Some ch \<Rightarrow>
                    if primary res \<noteq> None
                    then s2\<lparr>cache := Some (cache_set ch (rtext req) res (clock2 e))\<rparr>
                    else s2)
      in (s3, acts @ [Settled (caller req) (Resolved (applyOptions gn res (reqOptions req)))]))"

fun remove_first_key :: "nat \<Rightarrow> (nat \<times> 'a) list \<Rightarrow> (nat \<times> 'a) list" where
  "remove_first_key a [] = []"
| "remove_first_key a ((b, r) # xs) = (if b = a then xs else (b, r) # remove_first_key a xs)"

text \<open>The promise of the worker at address \<open>a\<close> settles: the call of \<open>executeRequest\<close>
  that awaits it goes on.\<close>

definition settle ::
  "(string \<Rightarrow> string) \<Rightarrow> env \<Rightarrow> detector \<Rightarrow> nat \<Rightarrow> outcome \<Rightarrow> detector \<times> action list" where
  "settle gn e s a out =
     (case map_of (inflight s) a of
        None \<Rightarrow> (s, [])
      | Some req \<Rightarrow>
          (let s1 = s\<lparr>inflight := remove_first_key a (inflight s)\<rparr>
           in case out of
                Resolved res \<Rightarrow> request_completed gn e s1 req res
              | Rejected err \<Rightarrow>
                  (let (s2, acts) = request_failed s1 req err;
                       (s3, acts') = processQueue s2
                   in (s3, acts @ acts'))))"

definition restartWorker :: "env \<Rightarrow> detector \<Rightarrow> nat \<Rightarrow> detector \<times> action list" where
  "restartWorker e s workerId =
     (if \<not> isLoaded s then (s, [])
      else if workerId < length (workers s) \<and> workers s ! workerId < length (heap s) then
        (let a = workers s ! workerId;
             (w1, acts1) = worker_stop (heap s ! a);
             (w2, acts2) = worker_start e w1
         in (s\<lparr>heap := (heap s)[a := w2]\<rparr>, Restarting workerId # acts1 @ acts2))
      else (s, [Restarting workerId]))"

text \<open>The listeners that \<open>load\<close> registers on the worker of id \<open>i\<close>: \<open>error\<close> and
  \<open>exit\<close> call \<open>restartWorker(i)\<close>; nothing listens to \<open>ready\<close>.\<close>

fun deliver :: "env \<Rightarrow> detector \<Rightarrow> nat \<Rightarrow> wevent list \<Rightarrow> detector \<times> action list" where
  "deliver e s i [] = (s, [])"
| "deliver e s i (EvReady # evs) = deliver e s i evs"
| "deliver e s i (EvError err # evs) =
     (let (s1, acts) = restartWorker e s i; (s2, acts') = deliver e s1 i evs
      in (s2, acts @ acts'))"
| "deliver e s i (EvExit # evs) =
     (let (s1, acts) = restartWorker e s i; (s2, acts') = deliver e s1 i evs
      in (s2, acts @ acts'))"

text \<open>A callback of the worker at address \<open>a\<close> that settles the promise of its
  \<open>detect\<close> (data, timeout or write error); it can only run while a call awaits that
  promise.\<close>

definition on_worker_settled ::
  "(string \<Rightarrow> string) \<Rightarrow> env \<Rightarrow> detector \<Rightarrow> nat
     \<Rightarrow> (worker \<Rightarrow> worker \<times> wevent list \<times> outcome) \<Rightarrow> detector \<times> action list" where
  "on_worker_settled gn e s a cb =
     (if a < length (heap s) \<and> map_of (inflight s) a \<noteq> None then
        (let (w', evs, out) = cb (heap s ! a);
             s1 = s\<lparr>heap := (heap s)[a := w']\<rparr>;
             (s2, acts) = deliver e s1 (wid w') evs;
             (s3, acts') = settle gn e s2 a out
         in (s3, acts @ acts'))
      else (s, []))"

definition on_start_timer :: "env \<Rightarrow> detector \<Rightarrow> nat \<Rightarrow> detector \<times> action list" where
  "on_start_timer e s a =
     (if a < length (heap s) then
        (let (w', evs, r) = worker_onStartTimer (heap s ! a)
         in deliver e (s\<lparr>heap := (heap s)[a := w']\<rparr>) (wid w') evs)
      else (s, []))"

definition on_process_error :: "env \<Rightarrow> detector \<Rightarrow> nat \<Rightarrow> error \<Rightarrow> detector \<times> action list" where
  "on_process_error e s a err =
     (if a < length (heap s) then
        (let (w', evs, r) = worker_onProcessError (heap s ! a) err
         in deliver e (s\<lparr>heap := (heap s)[a := w']\<rparr>) (wid w') evs)
      else (s, []))"

definition on_process_exit :: "env \<Rightarrow> detector \<Rightarrow> nat \<Rightarrow> detector \<times> action list" where
  "on_process_exit e s a =
     (if a < length (heap s) then
        (let (w', evs) = worker_onProcessExit (heap s ! a)
         in deliver e (s\<lparr>heap := (heap s)[a := w']\<rparr>) (wid w') evs)
      else (s, []))"

definition on_kill_timer :: "detector \<Rightarrow> nat \<Rightarrow> detector \<times> action list" where
  "on_kill_timer s a =
     (if a < length (heap s) then
        (let (w', acts) = worker_onKillTimer (heap s ! a)
         in (s\<lparr>heap := (heap s)[a := w']\<rparr>, acts))
      else (s, []))"

text \<open>\<open>workers.forEach((worker) => worker.stop())\<close>\<close>

fun stop_all :: "worker list \<Rightarrow> nat list \<Rightarrow> worker list \<times> action list" where
  "stop_all h [] = (h, [])"
| "stop_all h (a # as) =
     (if a < length h then
        (let (w', acts) = worker_stop (h ! a); (h', acts') = stop_all (h[a := w']) as
         in (h', acts @ acts'))
      else stop_all h as)"

text \<open>The loop of \<open>load\<close> over the worker ids: \<open>for (let i = 0; i < this.poolSize; i++)\<close>
  runs for the naturals below \<open>poolSize\<close>, which are those below its ceiling.\<close>

fun start_workers :: "env \<Rightarrow> detector \<Rightarrow> nat list \<Rightarrow> detector \<times> action list" where
  "start_workers e s [] = (s, [])"
| "start_workers e s (i # is) =
     (let (w, acts) = worker_start e (new_worker i (timeout s));
          s1 = s\<lparr>heap := heap s @ [w], workers := workers s @ [length (heap s)]\<rparr>;
          (s2, acts') = start_workers e s1 is
      in (s2, acts @ acts'))"

text \<open>The \<open>catch\<close> branch of \<open>load\<close>.\<close>

definition load_catch :: "detector \<Rightarrow> error \<Rightarrow> detector \<times> action list" where
  "load_catch s err =
     (let (h, acts) = stop_all (heap s) (workers s)
      in (s\<lparr>isLoading := False, heap := h, workers := []\<rparr>, acts @ [LoadSettled (Some err)]))"

text \<open>\<open>load()\<close> up to its \<open>await\<close>.\<close>

definition load :: "env \<Rightarrow> detector \<Rightarrow> detector \<times> action list" where
  "load e s =
     (if isLoading s then (s, [LoadSettled (Some AlreadyLoading)])
      else if isLoaded s then (s, [LoadSettled None])
      else
        (let s1 = s\<lparr>isLoading := True\<rparr>
         in if \<not> modelExists e then load_catch s1 ModelNotFound
            else if \<not> binaryFound e then load_catch s1 BinaryMissing
            else start_workers e s1 [0..<nat \<lceil>poolSize s1\<rceil>]))"

text \<open>The rest of \<open>load()\<close> once every worker has started, and once one has failed to.
  Both belong to a call of \<open>load\<close> that is waiting, which is the case while \<open>isLoading\<close>
  is set.\<close>

definition load_resolved :: "detector \<Rightarrow> detector \<times> action list" where
  "load_resolved s =
     (if isLoading s then
        (let s1 = s\<lparr>isLoading := False, isLoaded := True,
                    stats := (stats s)\<lparr>statPoolSize := poolSize s\<rparr>\<rparr>;
             (s2, acts) = processQueue s1
         in (s2, acts @ [LoadSettled None]))
      else (s, []))"

definition load_rejected :: "detector \<Rightarrow> error \<Rightarrow> detector \<times> action list" where
  "load_rejected s err = (if isLoading s then load_catch s err else (s, []))"

definition unload :: "detector \<Rightarrow> detector \<times> action list" where
  "unload s =
     (let rejected = map (\<lambda>request. Settled (caller request) (Rejected ShuttingDown))
                         (requestQueue s);
          (h, acts) = stop_all (heap s) (workers s)
      in (s\<lparr>isLoaded := False, requestQueue := [], heap := h, workers := []\<rparr>,
          rejected @ acts @ [UnloadSettled]))"

definition empty_result :: detection_result where
  "empty_result = \<lparr>predictions = [], primary = None\<rparr>"

text \<open>\<open>detect(text, options)\<close> for caller \<open>c\<close>, up to its \<open>await\<close>; an input that is
  not a string is excluded by the type.\<close>

definition detect ::
  "(string \<Rightarrow> string) \<Rightarrow> env \<Rightarrow> detector \<Rightarrow> nat \<Rightarrow> string \<Rightarrow> detection_options
     \<Rightarrow> detector \<times> action list" where
  "detect gn e s c txt options =
     (if txt = [] \<or> length (trim txt) = 0 then (s, [Settled c (Resolved empty_result)])
      else if \<not> isLoaded s then (s, [Settled c (Rejected ModelNotLoaded)])
      else
        (let (cached, s0) =
               (case cache s of
                  None \<Rightarrow> (None, s)
                | Some ch \<Rightarrow>
                    (let (r, ch') = cache_get ch txt (clock e) in (r, s\<lparr>cache := Some ch'\<rparr>)))
         in case cached of
              Some r \<Rightarrow> (s0, [Settled c (Resolved (applyOptions gn r options))])
            | None \<Rightarrow>
                (let s1 = s0\<lparr>stats := (stats s0)\<lparr>totalRequests := totalRequests (stats s0) + 1\<rparr>\<rparr>;
                     request = \<lparr>rtext = txt, caller = c, reqOptions = options,
                                startTime = clock2 e\<rparr>
                 in case getAvailableWorker s1 of
                      Some a \<Rightarrow>
                        (let (s2, acts, ok) = executeRequest s1 a request
                         in if ok then (s2, acts)
                            else (let (s3, acts') = processQueue s2 in (s3, acts @ acts')))
                    | None \<Rightarrow>
                        if of_nat (length (requestQueue s1)) \<ge> maxQueueSize s1
                        then (s1, [Settled c (Rejected (QueueFull (maxQueueSize s1)))])
                        else (s1\<lparr>stats := (stats s1)\<lparr>queuedRequests :=
                                                       queuedRequests (stats s1) + 1\<rparr>,
                                 requestQueue := requestQueue s1 @ [request]\<rparr>,
                              [Enqueued c]))))"

definition getStats :: "detector \<Rightarrow> pool_statistics" where
  "getStats s =
     (let ws = map (\<lambda>a. heap s ! a) (filter (\<lambda>a. a < length (heap s)) (workers s));
          active = int (length (filter isReady ws));
          busy = int (length (filter isBusy ws))
      in (stats s)\<lparr>statPoolSize := poolSize s, activeWorkers := active, busyWorkers := busy,
                   idleWorkers := active - busy,
                   queueLength := int (length (requestQueue s))\<rparr>)"

section \<open>Turns of the event loop\<close>

text \<open>The program runs one callback at a time: a call of the public interface, or a
  callback of a timer, a process or a stream, each together with the promise reactions
  it causes. \<open>step\<close> runs one of them and returns the state and the effects; \<open>run\<close>
  runs a sequence, each with what the environment gives it. Which callback comes next
  is not restricted, so every order the program can see is among the runs. Left out is
  the callback of a write that reports its error after its request has been settled.\<close>

datatype event =
    Load
  | LoadResolved
  | LoadRejected error
  | Unload
  | Detect nat string detection_options
  | StartTimer nat
  | ProcessError nat error
  | ProcessExit nat
  | WorkerData nat string
  | WorkerTimedOut nat
  | WriteFailed nat error
  | KillTimer nat
  | RestartResolved nat
  | RestartRejected nat
  | RetryTimer nat

definition step ::
  "(string \<Rightarrow> string) \<Rightarrow> detector \<Rightarrow> env \<times> event \<Rightarrow> detector \<times> action list" where
  "step gn s ev =
     (let e = fst ev
      in case snd ev of
           Load \<Rightarrow> load e s
         | LoadResolved \<Rightarrow> load_resolved s
         | LoadRejected err \<Rightarrow> load_rejected s err
         | Unload \<Rightarrow> unload s
         | Detect c txt options \<Rightarrow> detect gn e s c txt options
         | StartTimer a \<Rightarrow> on_start_timer e s a
         | ProcessError a err \<Rightarrow> on_process_error e s a err
         | ProcessExit a \<Rightarrow> on_process_exit e s a
         | WorkerData a dat \<Rightarrow> on_worker_settled gn e s a (\<lambda>w. worker_onData w dat)
         | WorkerTimedOut a \<Rightarrow> on_worker_settled gn e s a worker_onTimeout
         | WriteFailed a err \<Rightarrow> on_worker_settled gn e s a (\<lambda>w. worker_onWriteError w err)
         | KillTimer a \<Rightarrow> on_kill_timer s a
         | RestartResolved i \<Rightarrow> processQueue s
         | RestartRejected i \<Rightarrow> (s, [RetryScheduled i])
         | RetryTimer i \<Rightarrow> restartWorker e s i)"

fun run ::
  "(string \<Rightarrow> string) \<Rightarrow> detector \<Rightarrow> (env \<times> event) list \<Rightarrow> detector \<times> action list" where
  "run gn s [] = (s, [])"
| "run gn s (ev # evs) =
     (let (s1, acts) = step gn s ev; (s2, acts') = run gn s1 evs in (s2, acts @ acts'))"

section \<open>The specification's words\<close>

text \<open>The four stages of post-processing as the specification names them, each a
  function on the list of predictions.\<close>

definition by_threshold :: "detection_options \<Rightarrow> prediction list \<Rightarrow> prediction list" where
  "by_threshold options ps =
     (case threshold options of
        None \<Rightarrow> ps
      | Some t \<Rightarrow> filter (\<lambda>p. js_ge (confidence p) t) ps)"

definition top_k :: "detection_options \<Rightarrow> prediction list \<Rightarrow> prediction list" where
  "top_k options ps =
     (case topK options of
        None \<Rightarrow> ps
      | Some k \<Rightarrow> if js_truthy_pos k then slice0 k ps else ps)"

definition with_names ::
  "(string \<Rightarrow> string) \<Rightarrow> detection_options \<Rightarrow> prediction list \<Rightarrow> prediction list" where
  "with_names gn options ps =
     (if includeLanguageName options = Some True
      then map (\<lambda>p. p\<lparr>languageName := Some (gn (language p))\<rparr>) ps else ps)"

definition only_primary ::
  "detection_result \<Rightarrow> detection_options \<Rightarrow> prediction list \<Rightarrow> prediction list" where
  "only_primary res options ps =
     (if returnAll options = Some False
      then (case primary res of None \<Rightarrow> ps | Some pr \<Rightarrow> [pr]) else ps)"

text \<open>The output line as the specification describes it: the tokens taken two by two,
  a label and a confidence (the last label may stand alone); a pair gives a prediction
  when both tokens are there and not empty.\<close>

fun token_pairs :: "string list \<Rightarrow> (string \<times> string option) list" where
  "token_pairs [] = []"
| "token_pairs [l] = [(l, None)]"
| "token_pairs (l # c # rest) = (l, Some c) # token_pairs rest"

definition pair_prediction :: "string \<times> string option \<Rightarrow> prediction option" where
  "pair_prediction p =
     (case snd p of
        None \<Rightarrow> None
      | Some c \<Rightarrow>
          if fst p = [] \<or> c = [] then None
          else Some \<lparr>language = label_language (fst p), confidence = parseFloat c,
                     languageName = None\<rparr>)"

text \<open>A prediction is well formed when it has a language code and its confidence is a
  number.\<close>

definition well_formed :: "prediction \<Rightarrow> bool" where
  "well_formed p = (language p \<noteq> [] \<and> confidence p \<noteq> NaN)"

text \<open>What the cache holds for a text at a clock reading: nothing without a cache, else
  what \<open>get\<close> returns.\<close>

definition cached_result :: "detector \<Rightarrow> string \<Rightarrow> int \<Rightarrow> detection_result option" where
  "cached_result s t now =
     (case cache s of None \<Rightarrow> None | Some ch \<Rightarrow> fst (cache_get ch t now))"

section \<open>Reading the effects of a turn\<close>

text \<open>The callers of the requests handed to \<open>executeRequest\<close>, in the order of the
  effects.\<close>

fun dispatched :: "action list \<Rightarrow> nat list" where
  "dispatched [] = []"
| "dispatched (Dispatched c a # acts) = c # dispatched acts"
| "dispatched (x # acts) = dispatched acts"

text \<open>The effects that \<open>restartWorker\<close> and \<open>stop()\<close> have; the effects with which a
  caller's promise is resolved.\<close>

fun restart_action :: "action \<Rightarrow> bool" where
  "restart_action (Restarting i) = True"
| "restart_action (Spawned i p) = True"
| "restart_action (Kill p sg) = True"
| "restart_action (EndInput p) = True"
| "restart_action x = False"

fun resolves :: "action \<Rightarrow> bool" where
  "resolves (Settled c (Resolved r)) = True"
| "resolves x = False"

text \<open>A worker but for its busy flag: two heaps with the same \<open>idle\<close> workers differ
  in busy flags only.\<close>

definition idle :: "worker \<Rightarrow> worker" where
  "idle w = w\<lparr>isBusy := False\<rparr>"

text \<open>The callers that an event, and a sequence of events, bring in: one for each call of
  \<open>detect\<close>.\<close>

fun ev_callers :: "event \<Rightarrow> nat list" where
  "ev_callers (Detect c s options) = [c]"
| "ev_callers ev = []"



text \<open>What a turn does to the queue. \<open>quiet\<close>: it leaves the queue as it is and hands
  nothing to a worker. \<open>drained\<close>: it takes some requests from the front of the queue and
  hands exactly those to workers, in their order. \<open>qstep\<close>, which covers every turn: it
  drains, then appends at most one request of a caller among \<open>cs\<close>, or it empties the
  queue; before the requests from the queue it may hand over requests of callers among
  \<open>cs\<close>; the bound of the queue is not changed, and the queue grows only by a request
  that found it below the bound.\<close>

definition quiet :: "detector \<Rightarrow> detector \<times> action list \<Rightarrow> bool" where
  "quiet s r =
     (requestQueue (fst r) = requestQueue s \<and> maxQueueSize (fst r) = maxQueueSize s \<and>
      dispatched (snd r) = [])"

definition drained :: "detector \<Rightarrow> detector \<times> action list \<Rightarrow> bool" where
  "drained s r =
     (\<exists>k. k \<le> length (requestQueue s) \<and>
          requestQueue (fst r) = drop k (requestQueue s) \<and>
          dispatched (snd r) = map caller (take k (requestQueue s)) \<and>
          maxQueueSize (fst r) = maxQueueSize s)"

definition qstep :: "detector \<Rightarrow> nat list \<Rightarrow> detector \<times> action list \<Rightarrow> bool" where
  "qstep s cs r =
     (\<exists>k pre new. k \<le> length (requestQueue s) \<and>
        dispatched (snd r) = pre @ map caller (take k (requestQueue s)) \<and>
        (requestQueue (fst r) = drop k (requestQueue s) @ new \<or> requestQueue (fst r) = []) \<and>
        set pre \<subseteq> set cs \<and> caller ` set new \<subseteq> set cs \<and> length new \<le> 1 \<and>
        maxQueueSize (fst r) = maxQueueSize s \<and>
        (length (requestQueue (fst r)) \<le> length (requestQueue s) \<or>
         of_nat (length (requestQueue (fst r))) < maxQueueSize s + 1))"

section \<open>Concrete inputs\<close>

definition pred :: "string \<Rightarrow> rat \<Rightarrow> prediction" where
  "pred l q = \<lparr>language = l, confidence = Fin q, languageName = None\<rparr>"

definition example_result :: detection_result where
  "example_result =
     \<lparr>predictions = [pred ''en'' (9 / 10), pred ''fr'' (1 / 20), pred ''de'' (1 / 20)],
      primary = Some (pred ''en'' (9 / 10))\<rparr>"

definition unsorted_result :: detection_result where
  "unsorted_result =
     \<lparr>predictions = [pred ''fr'' (1 / 10), pred ''en'' (9 / 10), pred ''de'' (4 / 5)],
      primary = Some (pred ''fr'' (1 / 10))\<rparr>"

definition two_labels :: detection_result where
  "two_labels =
     \<lparr>predictions = [pred ''en'' (9 / 10), pred ''fr'' (1 / 20)],
      primary = Some (pred ''en'' (9 / 10))\<rparr>"

text \<open>An environment in which the clock stands at \<open>t\<close>, every spawn gives a live process
  with streams, and the model file and the binary are found.\<close>

definition env_at :: "int \<Rightarrow> env" where
  "env_at t =
     \<lparr>clock = t, clock2 = t,
      spawn = (\<lambda>i. \<lparr>pid = 100 + i, killed = False, hasStreams = True\<rparr>),
      modelExists = True, binaryFound = True\<rparr>"

definition default_options :: detector_options where
  "default_options =
     \<lparr>optPoolSize = None, optMaxQueueSize = None, optTimeout = None, optCache = None,
      optCacheSize = None, optCacheTTL = None\<rparr>"

text \<open>Two caches with the keys a and b, in that order: one full, one with room.\<close>

definition full_cache :: detection_cache where
  "full_cache =
     \<lparr>entries = [(''a'', \<lparr>result = example_result, timestamp = 1\<rparr>),
                 (''b'', \<lparr>result = example_result, timestamp = 2\<rparr>)],
      maxSize = 2, ttl = 1000\<rparr>"

definition roomy_cache :: detection_cache where
  "roomy_cache = full_cache\<lparr>maxSize := 3\<rparr>"

text \<open>The same two entries under a bound that is not a whole number.\<close>

definition fractional_cache :: detection_cache where
  "fractional_cache = full_cache\<lparr>maxSize := 5 / 2\<rparr>"

text \<open>The scenario of the queue test: a pool of one worker and a queue of two; the
  detector is loaded, then \<open>detect\<close> is called four times in a row. \<open>busy_state\<close> is the
  state after the four calls: the first request is with the worker, the second and the
  third are queued.\<close>

definition small_pool_options :: detector_options where
  "small_pool_options = default_options\<lparr>optPoolSize := Some 1, optMaxQueueSize := Some 2\<rparr>"

definition call :: "nat \<Rightarrow> string \<Rightarrow> env \<times> event" where
  "call c s = (env_at 0, Detect c s no_options)"

definition four_calls :: "(env \<times> event) list" where
  "four_calls =
     [(env_at 0, Load), (env_at 0, StartTimer 0), (env_at 0, LoadResolved),
      call 1 ''Test 0'', call 2 ''Test 1'', call 3 ''Test 2'', call 4 ''Test 3'']"

definition request :: "nat \<Rightarrow> string \<Rightarrow> queued_request" where
  "request c s = \<lparr>rtext = s, caller = c, reqOptions = no_options, startTime = 0\<rparr>"

definition busy_state :: detector where
  "busy_state =
     \<lparr>poolSize = 1, maxQueueSize = 2, timeout = 5000, cache = None,
      heap = [\<lparr>wid = 0, process = Some \<lparr>pid = 100, killed = False, hasStreams = True\<rparr>,
               isReady = True, isBusy = True, processedRequests = 0, wtimeout = 5000\<rparr>],
      workers = [0],
      requestQueue = [request 2 ''Test 1'', request 3 ''Test 2''],
      inflight = [(0, request 1 ''Test 0'')],
      isLoaded = True, isLoading = False,
      stats = new_stats\<lparr>totalRequests := 4, queuedRequests := 2, statPoolSize := 1\<rparr>\<rparr>"


text \<open>A detector with a cache and a pool of one, loaded, with one call for
  \<open>Hello world\<close> (threshold 0.5) waiting for the worker.\<close>

definition cached_options :: detector_options where
  "cached_options = default_options\<lparr>optPoolSize := Some 1, optCache := Some True\<rparr>"

definition hello :: queued_request where
  "hello = \<lparr>rtext = ''Hello world'', caller = 1,
            reqOptions = no_options\<lparr>threshold := Some (Fin (1 / 2))\<rparr>, startTime = 0\<rparr>"

definition waiting_state :: detector where
  "waiting_state =
     \<lparr>poolSize = 1, maxQueueSize = 500, timeout = 5000,
      cache = Some (new_cache 1000 3600000),
      heap = [\<lparr>wid = 0, process = Some \<lparr>pid = 100, killed = False, hasStreams = True\<rparr>,
               isReady = True, isBusy = True, processedRequests = 0, wtimeout = 5000\<rparr>],
      workers = [0], requestQueue = [], inflight = [(0, hello)],
      isLoaded = True, isLoading = False,
      stats = new_stats\<lparr>totalRequests := 1, statPoolSize := 1\<rparr>\<rparr>"

text \<open>The small pool with a cache: after loading, the call for \<open>Hello world\<close> is
  answered (and cached), then three more calls leave the worker busy and the queue
  full.\<close>

definition overload_calls :: "(env \<times> event) list" where
  "overload_calls =
     [(env_at 0, Load), (env_at 0, StartTimer 0), (env_at 0, LoadResolved),
      call 1 ''Hello world'', (env_at 0, WorkerData 0 ''__label__en 0.9 __label__fr 0.05''),
      call 2 ''Test 0'', call 3 ''Test 1'', call 4 ''Test 2'']"

definition overloaded_state :: detector where
  "overloaded_state =
     \<lparr>poolSize = 1, maxQueueSize = 2, timeout = 5000,
      cache = Some \<lparr>entries = [(''Hello world'', \<lparr>result = two_labels, timestamp = 0\<rparr>)],
                    maxSize = 1000, ttl = 3600000\<rparr>,
      heap = [\<lparr>wid = 0, process = Some \<lparr>pid = 100, killed = False, hasStreams = True\<rparr>,
               isReady = True, isBusy = True, processedRequests = 1, wtimeout = 5000\<rparr>],
      workers = [0],
      requestQueue = [request 3 ''Test 1'', request 4 ''Test 2''],
      inflight = [(0, request 2 ''Test 0'')],
      isLoaded = True, isLoading = False,
      stats = new_stats\<lparr>totalRequests := 4, completedRequests := 1, queuedRequests := 2,
                         statPoolSize := 1\<rparr>\<rparr>"

text \<open>A detector configured with a negative bound for the queue.\<close>

definition negative_queue_options :: detector_options where
  "negative_queue_options = default_options\<lparr>optMaxQueueSize := Some (- 1)\<rparr>"

text \<open>The small pool with a bound for the queue that is not a whole number.\<close>

definition fractional_queue_options :: detector_options where
  "fractional_queue_options = small_pool_options\<lparr>optMaxQueueSize := Some (5 / 2)\<rparr>"

section \<open>Properties\<close>

lemma first_or_null_simps:
  "first_or_null [] = None" "first_or_null (x # xs) = Some x"
  by (simp_all add: first_or_null_def)

subsection \<open>Blank input\<close>

lemma trim_blank: "list_all isWhiteSpace s \<Longrightarrow> trim s = []"
proof -
  assume "list_all isWhiteSpace s"
  then have d: "dropWhile isWhiteSpace s = []"
    by (induction s) auto
  show ?thesis unfolding trim_def d by simp
qed

text \<open>
  Claim C9. For a text that is empty or holds white space only, \<open>detect\<close> resolves with
  \<open>{predictions: [], primary: null}\<close> and changes nothing: the state after the call is
  the state before it (no cache read or write, nothing queued, no worker touched), and
  the settled promise is its only effect. This holds in every state of the detector,
  loaded or not.
\<close>

theorem detect_blank_text:
  "list_all isWhiteSpace s \<Longrightarrow>
     detect gn e st c s options =
       (st, [Settled c (Resolved \<lparr>predictions = [], primary = None\<rparr>)])"
  by (simp add: detect_def trim_blank empty_result_def)

theorem detect_blank_text_witness:
  "list_all isWhiteSpace [CHR '' '', CHR 0x0A, CHR 0x09] \<and>
   \<not> isLoaded (new_detector default_options) \<and>
   detect id (env_at 0) (new_detector default_options) 7 [CHR '' '', CHR 0x0A, CHR 0x09]
       no_options =
     (new_detector default_options,
      [Settled 7 (Resolved \<lparr>predictions = [], primary = None\<rparr>)])"
proof -
  have h: "list_all isWhiteSpace [CHR '' '', CHR 0x0A, CHR 0x09]"
    by (simp add: isWhiteSpace_def)
  have "\<not> isLoaded (new_detector default_options)"
    by (simp add: new_detector_def)
  with h detect_blank_text [OF h] show ?thesis by blast
qed

subsection \<open>Post-processing\<close>

text \<open>
  Claim C5. \<open>applyOptions\<close> is the composition of the four stages in the fixed order:
  first the predictions whose confidence is at or above the threshold are kept, then the
  list is cut to the first \<open>topK\<close>, then the language names are added, then, when
  \<open>returnAll\<close> is false, the list collapses to the primary prediction of the result that
  was passed in; the primary of the answer is the head of the final list. On the
  predictions (en, 0.9), (fr, 0.05), (de, 0.05): threshold 0.5 leaves (en, 0.9), topK 2
  leaves the first two in their order, returnAll false leaves the primary alone. The
  threshold comes before the cut: on (fr, 0.1), (en, 0.9), (de, 0.8), threshold 0.5 with
  topK 1 leaves (en, 0.9). The collapse comes last and takes the primary of the result
  as it came in: threshold 0.95 with returnAll false leaves (en, 0.9).
\<close>

theorem applyOptions_fixed_order:
  "predictions (applyOptions gn res options) =
     only_primary res options
       (with_names gn options (top_k options (by_threshold options (predictions res)))) \<and>
   primary (applyOptions gn res options) =
     first_or_null (predictions (applyOptions gn res options)) \<and>
   applyOptions gn example_result (no_options\<lparr>threshold := Some (Fin (1 / 2))\<rparr>) =
     \<lparr>predictions = [pred ''en'' (9 / 10)], primary = Some (pred ''en'' (9 / 10))\<rparr> \<and>
   applyOptions gn example_result (no_options\<lparr>topK := Some (Fin 2)\<rparr>) =
     \<lparr>predictions = [pred ''en'' (9 / 10), pred ''fr'' (1 / 20)],
      primary = Some (pred ''en'' (9 / 10))\<rparr> \<and>
   applyOptions gn example_result (no_options\<lparr>returnAll := Some False\<rparr>) =
     \<lparr>predictions = [pred ''en'' (9 / 10)], primary = Some (pred ''en'' (9 / 10))\<rparr> \<and>
   predictions (applyOptions gn unsorted_result
       (no_options\<lparr>threshold := Some (Fin (1 / 2)), topK := Some (Fin 1)\<rparr>)) =
     [pred ''en'' (9 / 10)] \<and>
   predictions (applyOptions gn example_result
       (no_options\<lparr>threshold := Some (Fin (19 / 20)), returnAll := Some False\<rparr>)) =
     [pred ''en'' (9 / 10)]"
proof -
  have stages: "predictions (applyOptions gn res options) =
      only_primary res options
        (with_names gn options (top_k options (by_threshold options (predictions res))))"
    by (simp add: applyOptions_def only_primary_def with_names_def top_k_def by_threshold_def
        Let_def split: option.splits)
  have head: "primary (applyOptions gn res options) =
      first_or_null (predictions (applyOptions gn res options))"
    by (simp add: applyOptions_def Let_def)
  have ex1: "applyOptions gn example_result (no_options\<lparr>threshold := Some (Fin (1 / 2))\<rparr>) =
      \<lparr>predictions = [pred ''en'' (9 / 10)], primary = Some (pred ''en'' (9 / 10))\<rparr>"
    by (simp add: applyOptions_def example_result_def no_options_def pred_def
        first_or_null_simps)
  have ex2: "applyOptions gn example_result (no_options\<lparr>topK := Some (Fin 2)\<rparr>) =
      \<lparr>predictions = [pred ''en'' (9 / 10), pred ''fr'' (1 / 20)],
       primary = Some (pred ''en'' (9 / 10))\<rparr>"
    by (simp add: applyOptions_def example_result_def no_options_def pred_def
        first_or_null_simps)
  have ex3: "applyOptions gn example_result (no_options\<lparr>returnAll := Some False\<rparr>) =
      \<lparr>predictions = [pred ''en'' (9 / 10)], primary = Some (pred ''en'' (9 / 10))\<rparr>"
    by (simp add: applyOptions_def example_result_def no_options_def pred_def
        first_or_null_simps)
  have ex4: "predictions (applyOptions gn unsorted_result
        (no_options\<lparr>threshold := Some (Fin (1 / 2)), topK := Some (Fin 1)\<rparr>)) =
      [pred ''en'' (9 / 10)]"
    by (simp add: applyOptions_def unsorted_result_def no_options_def pred_def
        first_or_null_simps)
  have ex5: "predictions (applyOptions gn example_result
        (no_options\<lparr>threshold := Some (Fin (19 / 20)), returnAll := Some False\<rparr>)) =
      [pred ''en'' (9 / 10)]"
    by (simp add: applyOptions_def example_result_def no_options_def pred_def
        first_or_null_simps)
  from stages head ex1 ex2 ex3 ex4 ex5 show ?thesis by blast
qed

subsection \<open>The worker's output line\<close>

lemma parseLoop_pairs:
  "parseLoop parts i acc = acc @ List.map_filter pair_prediction (token_pairs (drop i parts))"
proof (induction parts i acc rule: parseLoop.induct)
  case (1 parts i acc)
  show ?case
  proof (cases "i < length parts")
    case False
    then show ?thesis by (simp add: parseLoop.simps [of parts i acc])
  next
    case True
    note lt = this
    show ?thesis
    proof (cases "i + 1 < length parts")
      case True
      have d: "drop i parts = parts ! i # parts ! (i + 1) # drop (i + 2) parts"
        using lt True by (metis Cons_nth_drop_Suc Suc_eq_plus1 add_2_eq_Suc')
      show ?thesis
        using lt True "1.IH" [OF lt refl refl]
        by (simp add: parseLoop.simps [of parts i acc] d List.map_filter_simps
            pair_prediction_def)
    next
      case False
      have d: "drop i parts = [parts ! i]"
        using lt False by (metis Cons_nth_drop_Suc Suc_eq_plus1 drop_all not_less)
      show ?thesis
        using lt False "1.IH" [OF lt refl refl]
        by (simp add: parseLoop.simps [of parts i acc] d List.map_filter_simps
            pair_prediction_def)
    qed
  qed
qed

text \<open>
  Claim C8, as the claim states it, fails: a pair whose confidence token is not a number
  is kept, with the confidence NaN. The line \<open>__label__en abc\<close> gives one prediction,
  (en, NaN), which is not well formed.
\<close>

theorem parseResult_keeps_malformed_pair:
  "parseResult ''__label__en abc'' =
     [\<lparr>language = ''en'', confidence = NaN, languageName = None\<rparr>] \<and>
   \<not> list_all well_formed (parseResult ''__label__en abc'')"
  by code_simp

text \<open>
  Claim C8, amended. \<open>parseResult\<close> splits the line at white space and takes the tokens
  two by two, a label and a confidence. A pair whose label or confidence token is
  missing or empty is dropped; every other pair gives a prediction, in the order of the
  line: its language is the label without its first \<open>__label__\<close>, in lower case, with
  \<open>zh\<close> replaced by \<open>chs\<close>, and its confidence is \<open>parseFloat\<close> of the token (NaN when
  the token does not start with a number). For a label that starts with \<open>__label__\<close>
  the language is the lower-cased rest.
\<close>

theorem parseResult_token_pairs:
  "parseResult line = List.map_filter pair_prediction (token_pairs (split_ws line)) \<and>
   label_language (''__label__'' @ code) =
     (if toLowerCase code = ''zh'' then ''chs'' else toLowerCase code) \<and>
   parseResult ''__label__EN 0.9 __label__zh 0.05 __label__fr'' =
     [\<lparr>language = ''en'', confidence = Fin (9 / 10), languageName = None\<rparr>,
      \<lparr>language = ''chs'', confidence = Fin (1 / 20), languageName = None\<rparr>]"
proof -
  have a: "parseResult line = List.map_filter pair_prediction (token_pairs (split_ws line))"
    by (simp add: parseResult_def parseLoop_pairs)
  have b: "label_language (''__label__'' @ code) =
      (if toLowerCase code = ''zh'' then ''chs'' else toLowerCase code)"
    by (simp add: label_language_def)
  have c: "parseResult ''__label__EN 0.9 __label__zh 0.05 __label__fr'' =
     [\<lparr>language = ''en'', confidence = Fin (9 / 10), languageName = None\<rparr>,
      \<lparr>language = ''chs'', confidence = Fin (1 / 20), languageName = None\<rparr>]"
    by code_simp
  from a b c show ?thesis by blast
qed

subsection \<open>The cache\<close>

lemma length_map_set: "length (map_set k v m) \<le> Suc (length m)"
  by (induction m) auto

lemma keys_map_set: "fst ` set (map_set k v m) = insert k (fst ` set m)"
  by (induction m) force+

lemma distinct_map_set: "distinct (map fst m) \<Longrightarrow> distinct (map fst (map_set k v m))"
  by (induction m) (auto simp: keys_map_set)

lemma map_delete_first:
  "distinct (map fst ((k0, v0) # rest)) \<Longrightarrow> map_delete k0 ((k0, v0) # rest) = rest"
  by (force simp: map_delete_def filter_id_conv)

lemma cache_set_below:
  "of_nat (length (entries c)) < maxSize c \<Longrightarrow>
     entries (cache_set c k r now) = map_set k \<lparr>result = r, timestamp = now\<rparr> (entries c)"
  by (simp add: cache_set_def)

lemma cache_set_full:
  "of_nat (length (entries c)) \<ge> maxSize c \<Longrightarrow> entries c = (k0, v0) # rest \<Longrightarrow> k0 \<noteq> [] \<Longrightarrow>
   distinct (map fst (entries c)) \<Longrightarrow>
     entries (cache_set c k r now) = map_set k \<lparr>result = r, timestamp = now\<rparr> rest"
  using map_delete_first [of k0 v0 rest] by (simp add: cache_set_def)

lemma whole_bound_Suc:
  assumes "(m::rat) \<in> \<int>" "of_nat n < m"
  shows "of_nat (Suc n) \<le> m"
proof -
  from assms(1) obtain z where z: "m = of_int z" by (rule Ints_cases)
  from assms(2) have "(of_int (int n) :: rat) < of_int z" unfolding z by simp
  then have "int n < z" by (simp only: of_int_less_iff)
  then have "int (Suc n) \<le> z" by simp
  then have "(of_int (int (Suc n)) :: rat) \<le> of_int z" by (simp only: of_int_le_iff)
  then show ?thesis unfolding z by simp
qed

lemma cache_set_bound:
  assumes "maxSize c \<in> \<int>" "1 \<le> maxSize c" "of_nat (length (entries c)) \<le> maxSize c"
    "distinct (map fst (entries c))" "[] \<notin> fst ` set (entries c)"
  shows "of_nat (length (entries (cache_set c k r now))) \<le> maxSize c"
proof (cases "of_nat (length (entries c)) < maxSize c")
  case True
  have "length (entries (cache_set c k r now)) \<le> Suc (length (entries c))"
    using length_map_set [of k "\<lparr>result = r, timestamp = now\<rparr>" "entries c"] True
    by (simp add: cache_set_below)
  then have "(of_nat (length (entries (cache_set c k r now))) :: rat) \<le>
      of_nat (Suc (length (entries c)))"
    by (simp only: of_nat_le_iff)
  also have "\<dots> \<le> maxSize c" by (rule whole_bound_Suc [OF assms(1) True])
  finally show ?thesis .
next
  case False
  with assms obtain k0 v0 rest where e: "entries c = (k0, v0) # rest"
    by (cases "entries c") auto
  with assms have "k0 \<noteq> []" by force
  from False have ge: "of_nat (length (entries c)) \<ge> maxSize c" by simp
  have "entries (cache_set c k r now) = map_set k \<lparr>result = r, timestamp = now\<rparr> rest"
    by (rule cache_set_full [OF ge e \<open>k0 \<noteq> []\<close> assms(4)])
  then have "length (entries (cache_set c k r now)) \<le> length (entries c)"
    using length_map_set [of k "\<lparr>result = r, timestamp = now\<rparr>" rest] e by simp
  then have "(of_nat (length (entries (cache_set c k r now))) :: rat) \<le>
      of_nat (length (entries c))"
    by (simp only: of_nat_le_iff)
  with assms(3) show ?thesis by simp
qed

lemma cache_set_keeps_wf:
  assumes "distinct (map fst (entries c))" "[] \<notin> fst ` set (entries c)" "k \<noteq> []"
  shows "distinct (map fst (entries (cache_set c k r now))) \<and>
         [] \<notin> fst ` set (entries (cache_set c k r now))"
proof -
  define es where "es = (if of_nat (length (entries c)) \<ge> maxSize c
                then (case entries c of
                        [] \<Rightarrow> entries c
                      | (firstKey, v) # rest \<Rightarrow>
                          if firstKey \<noteq> [] then map_delete firstKey (entries c)
                          else entries c)
                else entries c)"
  have sub: "set es \<subseteq> set (entries c)" and d: "distinct (map fst es)"
    using assms(1) by (auto simp: es_def map_delete_def distinct_map_filter split: list.splits)
  have e: "entries (cache_set c k r now) = map_set k \<lparr>result = r, timestamp = now\<rparr> es"
    by (simp add: cache_set_def es_def)
  show ?thesis
    using sub d assms(2,3) unfolding e by (auto simp: distinct_map_set keys_map_set)
qed

text \<open>
  Claim C6, as the claim states it, fails: \<open>set\<close> on a key that is already present evicts
  the oldest entry when the cache is full. With \<open>maxSize\<close> 2 and the keys a, b, the call
  \<open>set(b, r)\<close> leaves the key b alone. And a \<open>maxSize\<close> that is not a whole number is
  exceeded: with \<open>maxSize\<close> 2.5 and the keys a, b, the size 2 has not reached the bound,
  so that \<open>set(c, r)\<close> evicts nothing and leaves three entries.
\<close>

theorem cache_set_overwrite_evicts:
  "map fst (entries full_cache) = [''a'', ''b''] \<and>
   of_nat (length (entries full_cache)) = maxSize full_cache \<and>
   map fst (entries (cache_set full_cache ''b'' example_result 5)) = [''b''] \<and>
   maxSize fractional_cache = 5 / 2 \<and>
   of_nat (length (entries fractional_cache)) \<le> maxSize fractional_cache \<and>
   map fst (entries (cache_set fractional_cache ''c'' example_result 5)) = [''a'', ''b'', ''c''] \<and>
   maxSize (cache_set fractional_cache ''c'' example_result 5) <
     of_nat (length (entries (cache_set fractional_cache ''c'' example_result 5)))"
  by (simp add: full_cache_def fractional_cache_def cache_set_def map_delete_def)

text \<open>
  Claim C6, amended. \<open>set(text, result)\<close> evicts when the size of the cache has reached
  \<open>maxSize\<close> at the call, whether or not the text is already a key: it then removes
  exactly the first-inserted entry and inserts into the rest. It evicts nothing when the
  size is below \<open>maxSize\<close>: every key stays and the text is added or overwritten in
  place. For a \<open>maxSize\<close> that is a whole number of at least 1 and keys that are not
  empty strings (as the texts that \<open>detect\<close> stores are), a cache within \<open>maxSize\<close>
  stays within it.
\<close>

theorem cache_set_eviction:
  "(of_nat (length (entries c)) < maxSize c \<longrightarrow>
      entries (cache_set c k r now) =
        map_set k \<lparr>result = r, timestamp = now\<rparr> (entries c) \<and>
      fst ` set (entries (cache_set c k r now)) = insert k (fst ` set (entries c))) \<and>
   (of_nat (length (entries c)) \<ge> maxSize c \<and> entries c = (k0, v0) # rest \<and> k0 \<noteq> [] \<and>
    distinct (map fst (entries c)) \<longrightarrow>
      entries (cache_set c k r now) = map_set k \<lparr>result = r, timestamp = now\<rparr> rest) \<and>
   (maxSize c \<in> \<int> \<and> 1 \<le> maxSize c \<and> of_nat (length (entries c)) \<le> maxSize c \<and>
    distinct (map fst (entries c)) \<and> [] \<notin> fst ` set (entries c) \<and> k \<noteq> [] \<longrightarrow>
      of_nat (length (entries (cache_set c k r now))) \<le> maxSize c \<and>
      distinct (map fst (entries (cache_set c k r now))) \<and>
      [] \<notin> fst ` set (entries (cache_set c k r now)) \<and>
      maxSize (cache_set c k r now) = maxSize c)"
proof (intro conjI impI)
  assume "of_nat (length (entries c)) < maxSize c"
  then show below: "entries (cache_set c k r now) =
      map_set k \<lparr>result = r, timestamp = now\<rparr> (entries c)"
    by (rule cache_set_below)
  show "fst ` set (entries (cache_set c k r now)) = insert k (fst ` set (entries c))"
    unfolding below by (rule keys_map_set)
next
  assume a: "of_nat (length (entries c)) \<ge> maxSize c \<and> entries c = (k0, v0) # rest \<and> k0 \<noteq> [] \<and>
    distinct (map fst (entries c))"
  from a have a1: "of_nat (length (entries c)) \<ge> maxSize c" by blast
  from a have a2: "entries c = (k0, v0) # rest" by blast
  from a have a3: "k0 \<noteq> []" by blast
  from a have a4: "distinct (map fst (entries c))" by blast
  show "entries (cache_set c k r now) = map_set k \<lparr>result = r, timestamp = now\<rparr> rest"
    by (rule cache_set_full [OF a1 a2 a3 a4])
next
  assume a: "maxSize c \<in> \<int> \<and> 1 \<le> maxSize c \<and> of_nat (length (entries c)) \<le> maxSize c \<and>
    distinct (map fst (entries c)) \<and> [] \<notin> fst ` set (entries c) \<and> k \<noteq> []"
  then show "of_nat (length (entries (cache_set c k r now))) \<le> maxSize c"
    by (intro cache_set_bound) auto
  from a show "distinct (map fst (entries (cache_set c k r now)))"
    using cache_set_keeps_wf [of c k r now] by auto
  from a show "[] \<notin> fst ` set (entries (cache_set c k r now))"
    using cache_set_keeps_wf [of c k r now] by auto
  show "maxSize (cache_set c k r now) = maxSize c"
    by (simp add: cache_set_def)
qed

theorem cache_set_eviction_witness:
  "of_nat (length (entries roomy_cache)) < maxSize roomy_cache \<and>
   map fst (entries (cache_set roomy_cache ''c'' example_result 5)) = [''a'', ''b'', ''c''] \<and>
   of_nat (length (entries full_cache)) \<ge> maxSize full_cache \<and>
   map fst (entries (cache_set full_cache ''c'' example_result 5)) = [''b'', ''c''] \<and>
   maxSize full_cache \<in> \<int> \<and> 1 \<le> maxSize full_cache \<and>
   of_nat (length (entries (cache_set full_cache ''c'' example_result 5))) \<le> maxSize full_cache"
proof -
  let ?e = "\<lparr>result = example_result, timestamp = 1\<rparr>"
  let ?f = "\<lparr>result = example_result, timestamp = 2\<rparr>"
  have r: "of_nat (length (entries roomy_cache)) < maxSize roomy_cache"
    by (simp add: roomy_cache_def full_cache_def)
  have f: "of_nat (length (entries full_cache)) \<ge> maxSize full_cache \<and>
      entries full_cache = (''a'', ?e) # [(''b'', ?f)] \<and> ''a'' \<noteq> [] \<and>
      distinct (map fst (entries full_cache))"
    by (simp add: full_cache_def)
  have b: "maxSize full_cache \<in> \<int> \<and> 1 \<le> maxSize full_cache \<and>
      of_nat (length (entries full_cache)) \<le> maxSize full_cache \<and>
      distinct (map fst (entries full_cache)) \<and> [] \<notin> fst ` set (entries full_cache) \<and>
      ''c'' \<noteq> []"
    by (simp add: full_cache_def)
  note R = cache_set_eviction [of roomy_cache "''c''" example_result 5]
  note F = cache_set_eviction [of full_cache "''c''" example_result 5 "''a''" ?e "[(''b'', ?f)]"]
  from r R have "entries (cache_set roomy_cache ''c'' example_result 5) =
      map_set ''c'' \<lparr>result = example_result, timestamp = 5\<rparr> (entries roomy_cache)"
    by blast
  then have 1: "map fst (entries (cache_set roomy_cache ''c'' example_result 5)) =
      [''a'', ''b'', ''c'']"
    by (simp add: roomy_cache_def full_cache_def)
  from f F have "entries (cache_set full_cache ''c'' example_result 5) =
      map_set ''c'' \<lparr>result = example_result, timestamp = 5\<rparr> [(''b'', ?f)]"
    by blast
  then have 2: "map fst (entries (cache_set full_cache ''c'' example_result 5)) = [''b'', ''c'']"
    by simp
  from b F
  have 3: "of_nat (length (entries (cache_set full_cache ''c'' example_result 5))) \<le> maxSize full_cache"
    by blast
  from r f b 1 2 3 show ?thesis by blast
qed

subsection \<open>Draining the queue\<close>

lemma map_update_same: "f y = f (xs ! k) \<Longrightarrow> map f (xs[k := y]) = map f xs"
  by (cases "k < length xs") (auto simp: list_eq_iff_nth_eq nth_list_update)

lemma dispatched_append: "dispatched (xs @ ys) = dispatched xs @ dispatched ys"
  by (induction xs rule: dispatched.induct) auto

lemma worker_detect_Inr:
  "worker_detect w t = Inr (w', acts) \<Longrightarrow>
     w' = w\<lparr>isBusy := True\<rparr> \<and> dispatched acts = [] \<and> \<not> list_ex restart_action acts"
  by (auto simp: worker_detect_def split: if_splits option.splits)

lemma executeRequest_frame:
  "\<exists>h fl st. fst (executeRequest s a req) = s\<lparr>heap := h, inflight := fl, stats := st\<rparr> \<and>
     map idle h = map idle (heap s) \<and>
     queuedRequests st = queuedRequests (stats s)"
proof (cases "worker_detect (heap s ! a) (rtext req)")
  case (Inl err)
  then have "fst (executeRequest s a req) =
      s\<lparr>heap := heap s, inflight := inflight s,
        stats := (stats s)\<lparr>failedRequests := failedRequests (stats s) + 1\<rparr>\<rparr>"
    by (simp add: executeRequest_def request_failed_def)
  then show ?thesis by (intro exI [of _ "heap s"] exI [of _ "inflight s"]) auto
next
  case (Inr p)
  obtain w' acts where p: "p = (w', acts)" by (cases p)
  with Inr worker_detect_Inr have w': "w' = (heap s ! a)\<lparr>isBusy := True\<rparr>" by blast
  from Inr p have "fst (executeRequest s a req) =
      s\<lparr>heap := (heap s)[a := w'], inflight := inflight s @ [(a, req)], stats := stats s\<rparr>"
    by (simp add: executeRequest_def)
  moreover have "map idle ((heap s)[a := w']) = map idle (heap s)"
    by (simp add: map_update_same w' idle_def)
  ultimately show ?thesis by blast
qed

lemma executeRequest_actions:
  "dispatched (fst (snd (executeRequest s a req))) = [caller req] \<and>
   \<not> list_ex restart_action (fst (snd (executeRequest s a req)))"
proof (cases "worker_detect (heap s ! a) (rtext req)")
  case (Inl err)
  then show ?thesis by (simp add: executeRequest_def request_failed_def)
next
  case (Inr p)
  obtain w' acts where p: "p = (w', acts)" by (cases p)
  with Inr worker_detect_Inr [of "heap s ! a" "rtext req" w' acts] show ?thesis
    by (simp add: executeRequest_def)
qed

lemma drain_frame:
  "requestQueue s = q \<Longrightarrow>
   \<exists>h fl st k. fst (drain s q) =
       s\<lparr>heap := h, inflight := fl, stats := st, requestQueue := drop k q\<rparr> \<and>
     k \<le> length q \<and>
     map idle h = map idle (heap s) \<and>
     queuedRequests st = queuedRequests (stats s) - int k \<and>
     dispatched (snd (drain s q)) = map caller (take k q) \<and>
     \<not> list_ex restart_action (snd (drain s q))"
proof (induction s q rule: drain.induct)
  case (1 s)
  then show ?case
    by (intro exI [of _ "heap s"] exI [of _ "inflight s"] exI [of _ "stats s"] exI [of _ 0]) simp
next
  case (2 s request rest)
  show ?case
  proof (cases "getAvailableWorker s")
    case None
    with 2(2) show ?thesis
      by (intro exI [of _ "heap s"] exI [of _ "inflight s"] exI [of _ "stats s"] exI [of _ 0])
        simp
  next
    case (Some a)
    define s1 where "s1 = s\<lparr>requestQueue := rest,
        stats := (stats s)\<lparr>queuedRequests := queuedRequests (stats s) - 1\<rparr>\<rparr>"
    obtain s2 acts ok where ex: "executeRequest s1 a request = (s2, acts, ok)"
      by (cases "executeRequest s1 a request") auto
    obtain s3 acts' where dr: "drain s2 rest = (s3, acts')"
      by (cases "drain s2 rest") auto
    from executeRequest_frame [of s1 a request] ex obtain h fl st where
      s2: "s2 = s1\<lparr>heap := h, inflight := fl, stats := st\<rparr>"
      and h: "map idle h = map idle (heap s1)"
      and st: "queuedRequests st = queuedRequests (stats s1)"
      by auto
    from executeRequest_actions [of s1 a request] ex
    have acts: "dispatched acts = [caller request]" "\<not> list_ex restart_action acts" by auto
    have q2: "requestQueue s2 = rest" by (simp add: s2 s1_def)
    from "2.IH" [OF Some s1_def refl ex [symmetric] refl q2] dr
    obtain h' fl' st' k where
      s3: "s3 = s2\<lparr>heap := h', inflight := fl', stats := st', requestQueue := drop k rest\<rparr>"
      and k: "k \<le> length rest"
      and h': "map idle h' = map idle (heap s2)"
      and st': "queuedRequests st' = queuedRequests (stats s2) - int k"
      and d': "dispatched acts' = map caller (take k rest)"
      and r': "\<not> list_ex restart_action acts'"
      by auto
    have res: "drain s (request # rest) = (s3, acts @ acts')"
      using Some ex dr by (simp add: s1_def [symmetric])
    have "fst (drain s (request # rest)) =
        s\<lparr>heap := h', inflight := fl', stats := st',
          requestQueue := drop (Suc k) (request # rest)\<rparr>"
      unfolding res by (simp add: s3 s2 s1_def)
    moreover have "Suc k \<le> length (request # rest)" using k by simp
    moreover have "map idle h' = map idle (heap s)"
      using h h' by (simp add: s2 s1_def)
    moreover have "queuedRequests st' = queuedRequests (stats s) - int (Suc k)"
      using st st' by (simp add: s2 s1_def)
    moreover have "dispatched (snd (drain s (request # rest))) =
        map caller (take (Suc k) (request # rest))"
      unfolding res by (simp add: dispatched_append acts d')
    moreover have "\<not> list_ex restart_action (snd (drain s (request # rest)))"
      unfolding res using acts r' by simp
    ultimately show ?thesis by blast
  qed
qed

subsection \<open>Unloading\<close>

lemma length_stop_all: "length (fst (stop_all h as)) = length h"
  by (induction h as rule: stop_all.induct) (auto split: prod.splits)

lemma worker_stop_idem: "fst (worker_stop (fst (worker_stop w))) = fst (worker_stop w)"
  by (auto simp: worker_stop_def split: option.splits)

lemma stop_all_nth:
  "a < length h \<Longrightarrow>
     fst (stop_all h as) ! a = (if a \<in> set as then fst (worker_stop (h ! a)) else h ! a)"
proof (induction h as rule: stop_all.induct)
  case (1 h)
  then show ?case by simp
next
  case (2 h b as)
  show ?case
  proof (cases "b < length h")
    case False
    with 2 show ?thesis by auto
  next
    case True
    obtain w' acts where w: "worker_stop (h ! b) = (w', acts)" by (cases "worker_stop (h ! b)")
    obtain h' acts' where r: "stop_all (h[b := w']) as = (h', acts')"
      by (cases "stop_all (h[b := w']) as")
    from "2.IH"(1) [OF True refl w [symmetric]] "2.prems" r
    have ih: "h' ! a = (if a \<in> set as then fst (worker_stop (h[b := w'] ! a)) else h[b := w'] ! a)"
      by simp
    have res: "fst (stop_all h (b # as)) = h'" using True w r by simp
    show ?thesis
      unfolding res ih using True w "2.prems" worker_stop_idem [of "h ! b"]
      by (auto simp: nth_list_update)
  qed
qed

lemma stop_all_actions:
  "a \<in> set as \<Longrightarrow> a < length h \<Longrightarrow>
     set (snd (worker_stop (h ! a))) \<subseteq> set (snd (stop_all h as))"
proof (induction h as rule: stop_all.induct)
  case (1 h)
  then show ?case by simp
next
  case (2 h b as)
  show ?case
  proof (cases "b < length h")
    case False
    with 2 show ?thesis by auto
  next
    case True
    obtain w' acts where w: "worker_stop (h ! b) = (w', acts)" by (cases "worker_stop (h ! b)")
    obtain h' acts' where r: "stop_all (h[b := w']) as = (h', acts')"
      by (cases "stop_all (h[b := w']) as")
    have res: "snd (stop_all h (b # as)) = acts @ acts'" using True w r by simp
    show ?thesis
    proof (cases "a = b")
      case True
      then show ?thesis unfolding res using w by simp
    next
      case False
      with "2.prems" have "a \<in> set as" by simp
      from "2.IH"(1) [OF True refl w [symmetric] this] "2.prems" False r
      show ?thesis unfolding res by (auto simp: nth_list_update)
    qed
  qed
qed

lemma stop_all_only_stops:
  "list_all (\<lambda>x. (\<exists>p. x = EndInput p) \<or> (\<exists>p. x = Kill p SIGTERM)) (snd (stop_all h as))"
proof (induction h as rule: stop_all.induct)
  case (1 h)
  then show ?case by simp
next
  case (2 h b as)
  show ?case
  proof (cases "b < length h")
    case False
    with 2 show ?thesis by auto
  next
    case True
    obtain w' acts where w: "worker_stop (h ! b) = (w', acts)" by (cases "worker_stop (h ! b)")
    obtain h' acts' where r: "stop_all (h[b := w']) as = (h', acts')"
      by (cases "stop_all (h[b := w']) as")
    have res: "snd (stop_all h (b # as)) = acts @ acts'" using True w r by simp
    have "list_all (\<lambda>x. (\<exists>p. x = EndInput p) \<or> (\<exists>p. x = Kill p SIGTERM)) acts"
      using w by (auto simp: worker_stop_def split: option.splits if_splits)
    with "2.IH"(1) [OF True refl w [symmetric]] r show ?thesis unfolding res by simp
  qed
qed

lemma process_worker_stop: "process (fst (worker_stop w)) = None"
  by (auto simp: worker_stop_def split: option.splits)

lemma unload_fields:
  "isLoaded (fst (unload s)) = False" "requestQueue (fst (unload s)) = []"
  "workers (fst (unload s)) = []" "heap (fst (unload s)) = fst (stop_all (heap s) (workers s))"
  "snd (unload s) =
     map (\<lambda>r. Settled (caller r) (Rejected ShuttingDown)) (requestQueue s) @
     snd (stop_all (heap s) (workers s)) @ [UnloadSettled]"
  by (simp_all add: unload_def split: prod.splits)

lemma unload_fresh: "unload (new_detector opts) = (new_detector opts, [UnloadSettled])"
  by (simp add: unload_def new_detector_def)

text \<open>The scenario of the queue test: a pool of one worker and a queue of two, loaded,
  then four calls of \<open>detect\<close> in a row.\<close>

lemma four_calls_run:
  "run gn (new_detector small_pool_options) four_calls =
     (busy_state,
      [Spawned 0 100, LoadSettled None, Dispatched 1 0, WriteLine 100 (''Test 0'' @ [CHR 0x0A]),
       Enqueued 2, Enqueued 3, Settled 4 (Rejected (QueueFull 2))])"
  by code_simp

lemma not_list_ex_append: "\<not> list_ex P (xs @ ys) \<longleftrightarrow> \<not> list_ex P xs \<and> \<not> list_ex P ys"
  by simp

lemma stop_all_no_resolve: "\<not> list_ex resolves (snd (stop_all h as))"
  using stop_all_only_stops [of h as] by (auto simp: list_all_iff list_ex_iff)

text \<open>
  Claim C3. \<open>unload()\<close> clears the loaded flag, empties the queue and the worker set, and
  has these effects and no others: one rejection with the shutting-down error for each
  queued request, in queue order (so none is dropped and none is resolved), the effects
  of \<open>stop()\<close> on each worker of the pool, and the settling of its own promise. Each
  worker of the pool is left as \<open>stop()\<close> leaves it, without a process handle; one that
  held a live process is no longer ready and its process has been sent SIGTERM. On a
  detector that was never loaded \<open>unload()\<close> changes nothing and settles without error.
\<close>

theorem unload_rejects_queue_and_stops_workers:
  "isLoaded (fst (unload s)) = False \<and>
   requestQueue (fst (unload s)) = [] \<and>
   workers (fst (unload s)) = [] \<and>
   snd (unload s) =
     map (\<lambda>r. Settled (caller r) (Rejected ShuttingDown)) (requestQueue s) @
     snd (stop_all (heap s) (workers s)) @ [UnloadSettled] \<and>
   \<not> list_ex resolves (snd (unload s)) \<and>
   (a \<in> set (workers s) \<and> a < length (heap s) \<longrightarrow>
      heap (fst (unload s)) ! a = fst (worker_stop (heap s ! a)) \<and>
      process (heap (fst (unload s)) ! a) = None \<and>
      set (snd (worker_stop (heap s ! a))) \<subseteq> set (snd (unload s))) \<and>
   (a \<in> set (workers s) \<and> a < length (heap s) \<and> process (heap s ! a) = Some p \<and> \<not> killed p \<longrightarrow>
      isReady (heap (fst (unload s)) ! a) = False \<and>
      Kill (pid p) SIGTERM \<in> set (snd (unload s))) \<and>
   unload (new_detector opts) = (new_detector opts, [UnloadSettled])"
proof -
  have acts: "snd (unload s) =
     map (\<lambda>r. Settled (caller r) (Rejected ShuttingDown)) (requestQueue s) @
     snd (stop_all (heap s) (workers s)) @ [UnloadSettled]"
    by (rule unload_fields)
  have "\<not> list_ex resolves (map (\<lambda>r. Settled (caller r) (Rejected ShuttingDown)) q)" for q
    by (induction q) auto
  then have none: "\<not> list_ex resolves (snd (unload s))"
    unfolding acts using stop_all_no_resolve [of "heap s" "workers s"] by simp
  have stopped: "heap (fst (unload s)) ! a = fst (worker_stop (heap s ! a)) \<and>
      process (heap (fst (unload s)) ! a) = None \<and>
      set (snd (worker_stop (heap s ! a))) \<subseteq> set (snd (unload s))"
    if "a \<in> set (workers s) \<and> a < length (heap s)"
  proof -
    from that have 1: "heap (fst (unload s)) ! a = fst (worker_stop (heap s ! a))"
      by (simp add: unload_fields stop_all_nth)
    from that stop_all_actions [of a "workers s" "heap s"]
    have 2: "set (snd (worker_stop (heap s ! a))) \<subseteq> set (snd (unload s))"
      unfolding acts by auto
    from 1 2 show ?thesis by (simp add: process_worker_stop)
  qed
  have killed: "isReady (heap (fst (unload s)) ! a) = False \<and>
      Kill (pid p) SIGTERM \<in> set (snd (unload s))"
    if h: "a \<in> set (workers s) \<and> a < length (heap s) \<and> process (heap s ! a) = Some p \<and> \<not> killed p"
  proof -
    from h have w: "fst (worker_stop (heap s ! a)) = (heap s ! a)\<lparr>process := None, isReady := False\<rparr>"
      and k: "Kill (pid p) SIGTERM \<in> set (snd (worker_stop (heap s ! a)))"
      by (simp_all add: worker_stop_def)
    from h stopped have "heap (fst (unload s)) ! a = fst (worker_stop (heap s ! a))"
      and "set (snd (worker_stop (heap s ! a))) \<subseteq> set (snd (unload s))"
      by blast+
    with w k show ?thesis by auto
  qed
  show ?thesis
  proof (intro conjI impI)
    show "isLoaded (fst (unload s)) = False" "requestQueue (fst (unload s)) = []"
      "workers (fst (unload s)) = []"
      by (rule unload_fields)+
    show "snd (unload s) =
       map (\<lambda>r. Settled (caller r) (Rejected ShuttingDown)) (requestQueue s) @
       snd (stop_all (heap s) (workers s)) @ [UnloadSettled]"
      by (rule acts)
    show "\<not> list_ex resolves (snd (unload s))" by (rule none)
    show "unload (new_detector opts) = (new_detector opts, [UnloadSettled])"
      by (rule unload_fresh)
  qed (use stopped killed in blast)+
qed

theorem unload_rejects_queue_and_stops_workers_witness:
  "0 \<in> set (workers busy_state) \<and> 0 < length (heap busy_state) \<and>
   process (heap busy_state ! 0) = Some \<lparr>pid = 100, killed = False, hasStreams = True\<rparr> \<and>
   isLoaded busy_state \<and>
   isLoaded (fst (unload busy_state)) = False \<and>
   requestQueue (fst (unload busy_state)) = [] \<and>
   workers (fst (unload busy_state)) = [] \<and>
   process (heap (fst (unload busy_state)) ! 0) = None \<and>
   isReady (heap (fst (unload busy_state)) ! 0) = False \<and>
   Kill 100 SIGTERM \<in> set (snd (unload busy_state)) \<and>
   snd (unload busy_state) =
     [Settled 2 (Rejected ShuttingDown), Settled 3 (Rejected ShuttingDown),
      EndInput 100, Kill 100 SIGTERM, UnloadSettled]"
proof -
  let ?p = "\<lparr>pid = 100, killed = False, hasStreams = True\<rparr>"
  have h: "0 \<in> set (workers busy_state) \<and> 0 < length (heap busy_state) \<and>
      process (heap busy_state ! 0) = Some ?p \<and> \<not> killed ?p"
    by (simp add: busy_state_def)
  have l: "isLoaded busy_state" by (simp add: busy_state_def)
  note U = unload_rejects_queue_and_stops_workers [of busy_state 0 ?p]
  from U have a: "isLoaded (fst (unload busy_state)) = False \<and>
      requestQueue (fst (unload busy_state)) = [] \<and> workers (fst (unload busy_state)) = []"
    by blast
  from U h have b: "process (heap (fst (unload busy_state)) ! 0) = None \<and>
      isReady (heap (fst (unload busy_state)) ! 0) = False"
    by blast
  from U h have "Kill (pid ?p) SIGTERM \<in> set (snd (unload busy_state))"
    by blast
  then have c: "Kill 100 SIGTERM \<in> set (snd (unload busy_state))" by simp
  from U have "snd (unload busy_state) =
     map (\<lambda>r. Settled (caller r) (Rejected ShuttingDown)) (requestQueue busy_state) @
     snd (stop_all (heap busy_state) (workers busy_state)) @ [UnloadSettled]"
    by blast
  then have d: "snd (unload busy_state) =
     [Settled 2 (Rejected ShuttingDown), Settled 3 (Rejected ShuttingDown),
      EndInput 100, Kill 100 SIGTERM, UnloadSettled]"
    by (simp add: busy_state_def request_def worker_stop_def)
  from h l a b c d show ?thesis by blast
qed

text \<open>
  Claim C2 fails on the code: \<open>unload()\<close> shifts the queued requests out of the queue
  without decrementing \<open>queuedRequests\<close>, which \<open>processQueue\<close> does for each request it
  shifts. After the four calls (two requests queued) and \<open>unload()\<close>, the statistics
  report two queued requests and a queue of length zero.
\<close>

theorem unload_keeps_queuedRequests:
  "queuedRequests
     (getStats (fst (run gn (new_detector small_pool_options)
                       (four_calls @ [(env_at 0, Unload)])))) = 2 \<and>
   queueLength
     (getStats (fst (run gn (new_detector small_pool_options)
                       (four_calls @ [(env_at 0, Unload)])))) = 0 \<and>
   requestQueue (fst (run gn (new_detector small_pool_options)
                       (four_calls @ [(env_at 0, Unload)]))) = []"
  by code_simp

subsection \<open>Timeouts\<close>

lemma idle_fields:
  "map idle h = map idle h' \<Longrightarrow>
     map process h = map process h' \<and> map isReady h = map isReady h' \<and>
     map processedRequests h = map processedRequests h' \<and> length h = length h'"
proof -
  assume a: "map idle h = map idle h'"
  have "map process h = map (process \<circ> idle) h" "map isReady h = map (isReady \<circ> idle) h"
    "map processedRequests h = map (processedRequests \<circ> idle) h"
    "map process h' = map (process \<circ> idle) h'" "map isReady h' = map (isReady \<circ> idle) h'"
    "map processedRequests h' = map (processedRequests \<circ> idle) h'"
    by (simp_all add: idle_def)
  moreover have "map (f \<circ> idle) h = map (f \<circ> idle) h'" for f :: "worker \<Rightarrow> 'b"
    using a by (metis map_map)
  moreover have "length h = length h'" using a by (metis length_map)
  ultimately show ?thesis by metis
qed

lemma timeout_step:
  assumes "a < length (heap s)" "map_of (inflight s) a = Some req"
  defines "s2 \<equiv> s\<lparr>heap := (heap s)[a := (heap s ! a)\<lparr>isBusy := False\<rparr>],
                   inflight := remove_first_key a (inflight s),
                   stats := (stats s)\<lparr>failedRequests := failedRequests (stats s) + 1\<rparr>\<rparr>"
  shows "on_worker_settled gn e s a worker_onTimeout =
     (fst (drain s2 (requestQueue s)),
      Settled (caller req) (Rejected (WorkerTimeout (wid (heap s ! a)))) #
      snd (drain s2 (requestQueue s)))"
  using assms(1,2)
  by (simp add: on_worker_settled_def worker_onTimeout_def settle_def request_failed_def
      processQueue_def s2_def split: prod.splits)

lemma timeout_frame:
  "map idle (heap (fst (on_worker_settled gn e s a worker_onTimeout))) = map idle (heap s) \<and>
   \<not> list_ex restart_action (snd (on_worker_settled gn e s a worker_onTimeout))"
proof (cases "a < length (heap s) \<and> map_of (inflight s) a \<noteq> None")
  case False
  then show ?thesis by (auto simp: on_worker_settled_def)
next
  case True
  then obtain req where r: "a < length (heap s)" "map_of (inflight s) a = Some req" by auto
  define s2 where "s2 = s\<lparr>heap := (heap s)[a := (heap s ! a)\<lparr>isBusy := False\<rparr>],
                   inflight := remove_first_key a (inflight s),
                   stats := (stats s)\<lparr>failedRequests := failedRequests (stats s) + 1\<rparr>\<rparr>"
  have q: "requestQueue s2 = requestQueue s" by (simp add: s2_def)
  from drain_frame [OF q] obtain h fl st k where
    d: "fst (drain s2 (requestQueue s)) =
          s2\<lparr>heap := h, inflight := fl, stats := st, requestQueue := drop k (requestQueue s)\<rparr>"
    and h: "map idle h = map idle (heap s2)"
    and n: "\<not> list_ex restart_action (snd (drain s2 (requestQueue s)))"
    by blast
  have "map idle (heap s2) = map idle (heap s)"
    by (simp add: s2_def map_update_same idle_def)
  with h d n show ?thesis
    unfolding timeout_step [OF r] s2_def [symmetric] by simp
qed

lemma deliver_single:
  "deliver e s i [] = (s, [])" "deliver e s i [EvReady] = (s, [])"
  "deliver e s i [EvError err] = restartWorker e s i"
  "deliver e s i [EvExit] = restartWorker e s i"
  by (simp_all split: prod.splits)

text \<open>
  Claim C7. When the timer of a request fires, the worker's callback clears the busy
  flag and rejects the call with the timeout error; it leaves the counter of processed
  requests, the ready flag and the process handle as they are, and emits no event. In
  the detector the whole turn (the callback, the \<open>catch\<close> branch of \<open>executeRequest\<close> and
  the draining of the queue) leaves every worker's process handle, ready flag and
  counter unchanged and has no effect of a restart (no restart is logged, no process
  is spawned, signalled or has its input closed); the waiting caller is rejected with
  the timeout error. \<open>restartWorker\<close> is what the listeners run for the events \<open>error\<close>
  and \<open>exit\<close>, which only the process callbacks emit; the data, write-error and timeout
  callbacks emit none, and \<open>ready\<close> has no listener.
\<close>

theorem timeout_fails_call_without_restart:
  "fst (worker_onTimeout w) = w\<lparr>isBusy := False\<rparr> \<and>
   isBusy (fst (worker_onTimeout w)) = False \<and>
   processedRequests (fst (worker_onTimeout w)) = processedRequests w \<and>
   process (fst (worker_onTimeout w)) = process w \<and>
   snd (worker_onTimeout w) = ([], Rejected (WorkerTimeout (wid w))) \<and>
   map process (heap (fst (step gn s (e, WorkerTimedOut a)))) = map process (heap s) \<and>
   map isReady (heap (fst (step gn s (e, WorkerTimedOut a)))) = map isReady (heap s) \<and>
   map processedRequests (heap (fst (step gn s (e, WorkerTimedOut a)))) =
     map processedRequests (heap s) \<and>
   \<not> list_ex restart_action (snd (step gn s (e, WorkerTimedOut a))) \<and>
   (a < length (heap s) \<and> map_of (inflight s) a = Some req \<longrightarrow>
      hd (snd (step gn s (e, WorkerTimedOut a))) =
        Settled (caller req) (Rejected (WorkerTimeout (wid (heap s ! a))))) \<and>
   deliver e s i [] = (s, []) \<and>
   deliver e s i [EvReady] = (s, []) \<and>
   deliver e s i [EvError err] = restartWorker e s i \<and>
   deliver e s i [EvExit] = restartWorker e s i \<and>
   fst (snd (worker_onData w dat)) = [] \<and>
   fst (snd (worker_onWriteError w err)) = [] \<and>
   fst (snd (worker_onProcessError w err)) = [EvError err] \<and>
   snd (worker_onProcessExit w) = [EvExit]"
proof -
  have st: "step gn s (e, WorkerTimedOut a) = on_worker_settled gn e s a worker_onTimeout"
    by (simp add: step_def)
  from timeout_frame [of gn e s a]
  have i: "map idle (heap (fst (step gn s (e, WorkerTimedOut a)))) = map idle (heap s)"
    and n: "\<not> list_ex restart_action (snd (step gn s (e, WorkerTimedOut a)))"
    unfolding st by blast+
  note f = idle_fields [OF i]
  have r: "hd (snd (step gn s (e, WorkerTimedOut a))) =
        Settled (caller req) (Rejected (WorkerTimeout (wid (heap s ! a))))"
    if "a < length (heap s) \<and> map_of (inflight s) a = Some req"
    unfolding st using that timeout_step [of a s req gn e] by simp
  have w: "fst (worker_onTimeout w) = w\<lparr>isBusy := False\<rparr>"
    "isBusy (fst (worker_onTimeout w)) = False"
    "processedRequests (fst (worker_onTimeout w)) = processedRequests w"
    "process (fst (worker_onTimeout w)) = process w"
    "snd (worker_onTimeout w) = ([], Rejected (WorkerTimeout (wid w)))"
    by (simp_all add: worker_onTimeout_def)
  have c: "fst (snd (worker_onData w dat)) = []" "fst (snd (worker_onWriteError w err)) = []"
    "fst (snd (worker_onProcessError w err)) = [EvError err]"
    "snd (worker_onProcessExit w) = [EvExit]"
    by (simp_all add: worker_onData_def worker_onWriteError_def worker_onProcessError_def
        worker_onProcessExit_def Let_def)
  show ?thesis
    using w f n r c deliver_single [of e s i] by blast
qed

theorem timeout_fails_call_without_restart_witness:
  "0 < length (heap busy_state) \<and>
   map_of (inflight busy_state) 0 = Some (request 1 ''Test 0'') \<and>
   hd (snd (step id busy_state (env_at 5000, WorkerTimedOut 0))) =
     Settled 1 (Rejected (WorkerTimeout 0)) \<and>
   map process (heap (fst (step id busy_state (env_at 5000, WorkerTimedOut 0)))) =
     [Some \<lparr>pid = 100, killed = False, hasStreams = True\<rparr>] \<and>
   \<not> list_ex restart_action (snd (step id busy_state (env_at 5000, WorkerTimedOut 0)))"
proof -
  have h: "0 < length (heap busy_state) \<and>
      map_of (inflight busy_state) 0 = Some (request 1 ''Test 0'')"
    by (simp add: busy_state_def)
  note T = timeout_fails_call_without_restart
    [of _ id busy_state "env_at 5000" 0 "request 1 ''Test 0''"]
  from T h have 1: "hd (snd (step id busy_state (env_at 5000, WorkerTimedOut 0))) =
      Settled (caller (request 1 ''Test 0''))
        (Rejected (WorkerTimeout (wid (heap busy_state ! 0))))"
    by blast
  from T have 2: "map process (heap (fst (step id busy_state (env_at 5000, WorkerTimedOut 0)))) =
      map process (heap busy_state)"
    by blast
  from T have 3: "\<not> list_ex restart_action (snd (step id busy_state (env_at 5000, WorkerTimedOut 0)))"
    by blast
  from h 1 2 3 show ?thesis by (simp add: busy_state_def request_def)
qed

subsection \<open>The cache in detect\<close>

lemma map_of_map_set: "map_of (map_set k v m) k = Some v"
  by (induction m) auto

lemma cache_get_after_set:
  "of_int (now' - now) \<le> ttl c \<Longrightarrow>
     cache_get (cache_set c k r now) k now' = (Some r, cache_set c k r now)"
  by (simp add: cache_get_def cache_set_def map_of_map_set Let_def)

lemma drain_keeps:
  "requestQueue s = q \<Longrightarrow>
     cache (fst (drain s q)) = cache s \<and> isLoaded (fst (drain s q)) = isLoaded s \<and>
     maxQueueSize (fst (drain s q)) = maxQueueSize s \<and> workers (fst (drain s q)) = workers s \<and>
     isLoading (fst (drain s q)) = isLoading s \<and> poolSize (fst (drain s q)) = poolSize s"
proof -
  assume "requestQueue s = q"
  from drain_frame [OF this] obtain h fl st k where
    "fst (drain s q) = s\<lparr>heap := h, inflight := fl, stats := st, requestQueue := drop k q\<rparr>"
    by blast
  then show ?thesis by simp
qed

lemma request_completed_cache:
  "cache (fst (request_completed gn e s req res)) =
     (case cache s of
        None \<Rightarrow> None
      | Some ch \<Rightarrow> if primary res \<noteq> None
                   then Some (cache_set ch (rtext req) res (clock2 e)) else Some ch)"
  "isLoaded (fst (request_completed gn e s req res)) = isLoaded s"
  "last (snd (request_completed gn e s req res)) =
     Settled (caller req) (Resolved (applyOptions gn res (reqOptions req)))"
proof -
  define s1 where "s1 = s\<lparr>stats := (stats s)\<lparr>completedRequests := completedRequests (stats s) + 1,
                   averageResponseTime :=
                     (averageResponseTime (stats s) * of_int (completedRequests (stats s) + 1 - 1) +
                      of_int (clock e - startTime req)) / of_int (completedRequests (stats s) + 1)\<rparr>\<rparr>"
  have q: "requestQueue s1 = requestQueue s1" ..
  note k = drain_keeps [OF q]
  have c1: "cache s1 = cache s" "isLoaded s1 = isLoaded s" by (simp_all add: s1_def)
  obtain s2 acts where d: "drain s1 (requestQueue s1) = (s2, acts)"
    by (cases "drain s1 (requestQueue s1)")
  with k c1 have c2: "cache s2 = cache s" "isLoaded s2 = isLoaded s" by simp_all
  have r: "request_completed gn e s req res =
      ((case cache s2 of
                  None \<Rightarrow> s2
                | Some ch \<Rightarrow>
                    if primary res \<noteq> None
                    then s2\<lparr>cache := Some (cache_set ch (rtext req) res (clock2 e))\<rparr>
                    else s2),
       acts @ [Settled (caller req) (Resolved (applyOptions gn res (reqOptions req)))])"
    using d by (simp add: request_completed_def Let_def processQueue_def s1_def)
  show "cache (fst (request_completed gn e s req res)) =
     (case cache s of
        None \<Rightarrow> None
      | Some ch \<Rightarrow> if primary res \<noteq> None
                   then Some (cache_set ch (rtext req) res (clock2 e)) else Some ch)"
    unfolding r using c2 by (simp split: option.splits)
  show "isLoaded (fst (request_completed gn e s req res)) = isLoaded s"
    unfolding r using c2 by (simp split: option.splits)
  show "last (snd (request_completed gn e s req res)) =
     Settled (caller req) (Resolved (applyOptions gn res (reqOptions req)))"
    unfolding r by simp
qed

lemma data_step:
  assumes "a < length (heap s)" "map_of (inflight s) a = Some req"
  shows "step gn s (e, WorkerData a dat) =
     request_completed gn e
       (s\<lparr>heap := (heap s)[a := (heap s ! a)\<lparr>isBusy := False,
               processedRequests := processedRequests (heap s ! a) + 1\<rparr>],
          inflight := remove_first_key a (inflight s)\<rparr>)
       req (data_result dat)"
  using assms
  by (simp add: step_def on_worker_settled_def worker_onData_def settle_def split: prod.splits)

lemma detect_hit:
  assumes "trim t \<noteq> []" "isLoaded s" "cache s = Some ch" "cache_get ch t (clock e) = (Some r, ch)"
  shows "detect gn e s c t options = (s, [Settled c (Resolved (applyOptions gn r options))])"
proof -
  from assms(1) have "t \<noteq> []" by (auto simp: trim_def)
  with assms show ?thesis by (simp add: detect_def)
qed

lemma waiting_state_run:
  "run gn (new_detector cached_options)
     [(env_at 0, Load), (env_at 0, StartTimer 0), (env_at 0, LoadResolved),
      (env_at 0, Detect 1 ''Hello world'' (no_options\<lparr>threshold := Some (Fin (1 / 2))\<rparr>))] =
   (waiting_state,
    [Spawned 0 100, LoadSettled None, Dispatched 1 0,
     WriteLine 100 (''Hello world'' @ [CHR 0x0A])])"
  by code_simp

lemma two_labels_data: "data_result ''__label__en 0.9 __label__fr 0.05'' = two_labels"
  by code_simp

text \<open>
  Claim C10. When the worker answers a request that \<open>detect\<close> dispatched after a cache
  miss, the result built from the answer is stored as it is, before any option is
  applied, under the text of the call as it was passed in, and only when it has a
  primary prediction (otherwise the cache is left alone); the caller gets that result
  with the options of the call applied. A later call with the same text, while the
  entry has not expired, is a hit: it changes nothing and returns the stored result
  with its own options applied. That is the value a miss with these options returns for
  the same answer of the worker, whatever the cache held.
\<close>

theorem cache_stores_raw_result:
  "(a < length (heap s) \<and> map_of (inflight s) a = Some req \<and> cache s = Some ch \<and>
    isLoaded s \<and> trim (rtext req) \<noteq> [] \<and> primary (data_result dat) \<noteq> None \<and>
    of_int (clock e2 - clock2 e) \<le> ttl ch \<longrightarrow>
      cache (fst (step gn s (e, WorkerData a dat))) =
        Some (cache_set ch (rtext req) (data_result dat) (clock2 e)) \<and>
      map_of (entries (cache_set ch (rtext req) (data_result dat) (clock2 e))) (rtext req) =
        Some \<lparr>result = data_result dat, timestamp = clock2 e\<rparr> \<and>
      last (snd (step gn s (e, WorkerData a dat))) =
        Settled (caller req) (Resolved (applyOptions gn (data_result dat) (reqOptions req))) \<and>
      detect gn e2 (fst (step gn s (e, WorkerData a dat))) c (rtext req) o2 =
        (fst (step gn s (e, WorkerData a dat)),
         [Settled c (Resolved (applyOptions gn (data_result dat) o2))])) \<and>
   (a < length (heap s) \<and> map_of (inflight s) a = Some req \<and>
    primary (data_result dat) = None \<longrightarrow>
      cache (fst (step gn s (e, WorkerData a dat))) = cache s) \<and>
   (b < length (heap t) \<and> map_of (inflight t) b = Some req2 \<and> reqOptions req2 = o2 \<longrightarrow>
      last (snd (step gn t (e', WorkerData b dat))) =
        Settled (caller req2) (Resolved (applyOptions gn (data_result dat) o2)))"
proof (intro conjI impI)
  assume h: "a < length (heap s) \<and> map_of (inflight s) a = Some req \<and> cache s = Some ch \<and>
    isLoaded s \<and> trim (rtext req) \<noteq> [] \<and> primary (data_result dat) \<noteq> None \<and>
    of_int (clock e2 - clock2 e) \<le> ttl ch"
  then have st: "step gn s (e, WorkerData a dat) =
     request_completed gn e
       (s\<lparr>heap := (heap s)[a := (heap s ! a)\<lparr>isBusy := False,
               processedRequests := processedRequests (heap s ! a) + 1\<rparr>],
          inflight := remove_first_key a (inflight s)\<rparr>)
       req (data_result dat)"
    by (intro data_step) auto
  from h show c: "cache (fst (step gn s (e, WorkerData a dat))) =
        Some (cache_set ch (rtext req) (data_result dat) (clock2 e))"
    unfolding st by (simp add: request_completed_cache)
  show "map_of (entries (cache_set ch (rtext req) (data_result dat) (clock2 e))) (rtext req) =
        Some \<lparr>result = data_result dat, timestamp = clock2 e\<rparr>"
    by (simp add: cache_set_def Let_def map_of_map_set)
  show "last (snd (step gn s (e, WorkerData a dat))) =
        Settled (caller req) (Resolved (applyOptions gn (data_result dat) (reqOptions req)))"
    unfolding st by (rule request_completed_cache)
  from h have l: "isLoaded (fst (step gn s (e, WorkerData a dat)))"
    unfolding st by (simp add: request_completed_cache)
  from h have g: "cache_get (cache_set ch (rtext req) (data_result dat) (clock2 e)) (rtext req)
      (clock e2) = (Some (data_result dat), cache_set ch (rtext req) (data_result dat) (clock2 e))"
    by (intro cache_get_after_set) (simp add: cache_set_def Let_def)
  from h have "trim (rtext req) \<noteq> []" by blast
  from detect_hit [OF this l c g]
  show "detect gn e2 (fst (step gn s (e, WorkerData a dat))) c (rtext req) o2 =
        (fst (step gn s (e, WorkerData a dat)),
         [Settled c (Resolved (applyOptions gn (data_result dat) o2))])" .
next
  assume h: "a < length (heap s) \<and> map_of (inflight s) a = Some req \<and>
    primary (data_result dat) = None"
  then have st: "step gn s (e, WorkerData a dat) =
     request_completed gn e
       (s\<lparr>heap := (heap s)[a := (heap s ! a)\<lparr>isBusy := False,
               processedRequests := processedRequests (heap s ! a) + 1\<rparr>],
          inflight := remove_first_key a (inflight s)\<rparr>)
       req (data_result dat)"
    by (intro data_step) auto
  from h show "cache (fst (step gn s (e, WorkerData a dat))) = cache s"
    unfolding st by (simp add: request_completed_cache split: option.splits)
next
  assume h: "b < length (heap t) \<and> map_of (inflight t) b = Some req2 \<and> reqOptions req2 = o2"
  then have st: "step gn t (e', WorkerData b dat) =
     request_completed gn e'
       (t\<lparr>heap := (heap t)[b := (heap t ! b)\<lparr>isBusy := False,
               processedRequests := processedRequests (heap t ! b) + 1\<rparr>],
          inflight := remove_first_key b (inflight t)\<rparr>)
       req2 (data_result dat)"
    by (intro data_step) auto
  from h show "last (snd (step gn t (e', WorkerData b dat))) =
        Settled (caller req2) (Resolved (applyOptions gn (data_result dat) o2))"
    unfolding st by (simp add: request_completed_cache)
qed

theorem cache_stores_raw_result_witness:
  "0 < length (heap waiting_state) \<and> map_of (inflight waiting_state) 0 = Some hello \<and>
   cache waiting_state = Some (new_cache 1000 3600000) \<and> isLoaded waiting_state \<and>
   trim (rtext hello) \<noteq> [] \<and>
   primary (data_result ''__label__en 0.9 __label__fr 0.05'') \<noteq> None \<and>
   of_int (clock (env_at 20) - clock2 (env_at 10)) \<le> ttl (new_cache 1000 3600000) \<and>
   cache (fst (step id waiting_state (env_at 10, WorkerData 0 ''__label__en 0.9 __label__fr 0.05''))) =
     Some \<lparr>entries = [(''Hello world'', \<lparr>result = two_labels, timestamp = 10\<rparr>)],
           maxSize = 1000, ttl = 3600000\<rparr> \<and>
   last (snd (step id waiting_state (env_at 10, WorkerData 0 ''__label__en 0.9 __label__fr 0.05''))) =
     Settled 1 (Resolved \<lparr>predictions = [pred ''en'' (9 / 10)],
                           primary = Some (pred ''en'' (9 / 10))\<rparr>) \<and>
   detect id (env_at 20)
       (fst (step id waiting_state (env_at 10, WorkerData 0 ''__label__en 0.9 __label__fr 0.05'')))
       2 ''Hello world'' no_options =
     (fst (step id waiting_state (env_at 10, WorkerData 0 ''__label__en 0.9 __label__fr 0.05'')),
      [Settled 2 (Resolved two_labels)]) \<and>
   primary (data_result []) = None \<and>
   cache (fst (step id waiting_state (env_at 10, WorkerData 0 []))) = cache waiting_state"
proof -
  let ?d = "''__label__en 0.9 __label__fr 0.05''"
  let ?ch = "new_cache 1000 3600000"
  have h1: "0 < length (heap waiting_state) \<and> map_of (inflight waiting_state) 0 = Some hello"
    by (simp add: waiting_state_def)
  have h2: "cache waiting_state = Some ?ch \<and> isLoaded waiting_state"
    by (simp add: waiting_state_def)
  have h3: "trim (rtext hello) \<noteq> []"
    by (simp add: hello_def trim_def isWhiteSpace_def)
  have h4: "primary (data_result ?d) \<noteq> None"
    by (simp add: two_labels_data two_labels_def)
  have h5: "of_int (clock (env_at 20) - clock2 (env_at 10)) \<le> ttl ?ch"
    by (simp add: env_at_def new_cache_def)
  have h6: "primary (data_result []) = None"
    by code_simp
  note A = cache_stores_raw_result
    [of 0 waiting_state hello ?ch ?d "env_at 20" "env_at 10" id 2 no_options]
  note B = cache_stores_raw_result [of 0 waiting_state hello _ "[]" _ "env_at 10" id]
  from A h1 h2 h3 h4 h5
  have 1: "cache (fst (step id waiting_state (env_at 10, WorkerData 0 ?d))) =
        Some (cache_set ?ch (rtext hello) (data_result ?d) (clock2 (env_at 10)))"
    and 2: "last (snd (step id waiting_state (env_at 10, WorkerData 0 ?d))) =
        Settled (caller hello) (Resolved (applyOptions id (data_result ?d) (reqOptions hello)))"
    and 3: "detect id (env_at 20) (fst (step id waiting_state (env_at 10, WorkerData 0 ?d))) 2
          (rtext hello) no_options =
        (fst (step id waiting_state (env_at 10, WorkerData 0 ?d)),
         [Settled 2 (Resolved (applyOptions id (data_result ?d) no_options))])"
    by blast+
  from B h1 h6
  have 4: "cache (fst (step id waiting_state (env_at 10, WorkerData 0 []))) = cache waiting_state"
    by blast
  have v1: "cache_set ?ch (rtext hello) (data_result ?d) (clock2 (env_at 10)) =
      \<lparr>entries = [(''Hello world'', \<lparr>result = two_labels, timestamp = 10\<rparr>)],
           maxSize = 1000, ttl = 3600000\<rparr>"
    by (simp add: two_labels_data cache_set_def new_cache_def hello_def env_at_def)
  have v2: "applyOptions id (data_result ?d) (reqOptions hello) =
      \<lparr>predictions = [pred ''en'' (9 / 10)], primary = Some (pred ''en'' (9 / 10))\<rparr>"
    by (simp add: two_labels_data two_labels_def applyOptions_def hello_def no_options_def
        pred_def first_or_null_simps)
  have v3: "applyOptions id (data_result ?d) no_options = two_labels"
    by (simp add: two_labels_data two_labels_def applyOptions_def no_options_def
        first_or_null_simps)
  have v4: "rtext hello = ''Hello world''" "caller hello = 1" by (simp_all add: hello_def)
  from 1 have r1: "cache (fst (step id waiting_state (env_at 10, WorkerData 0 ?d))) =
      Some \<lparr>entries = [(''Hello world'', \<lparr>result = two_labels, timestamp = 10\<rparr>)],
           maxSize = 1000, ttl = 3600000\<rparr>"
    by (simp only: v1)
  from 2 have r2: "last (snd (step id waiting_state (env_at 10, WorkerData 0 ?d))) =
     Settled 1 (Resolved \<lparr>predictions = [pred ''en'' (9 / 10)],
                           primary = Some (pred ''en'' (9 / 10))\<rparr>)"
    by (simp only: v2 v4)
  from 3 have r3: "detect id (env_at 20)
       (fst (step id waiting_state (env_at 10, WorkerData 0 ?d))) 2 ''Hello world'' no_options =
     (fst (step id waiting_state (env_at 10, WorkerData 0 ?d)), [Settled 2 (Resolved two_labels)])"
    by (simp only: v3 v4)
  from h1 h2 h3 h4 h5 h6 r1 r2 r3 4 show ?thesis
    by blast
qed

subsection \<open>The queue in every turn\<close>

lemma quiet_refl: "quiet s (s, [])"
  by (simp add: quiet_def)

lemma quiet_trans:
  "quiet s (s1, acts) \<Longrightarrow> quiet s1 (s2, acts') \<Longrightarrow> quiet s (s2, acts @ acts')"
  by (simp add: quiet_def dispatched_append)

lemma dispatched_stops:
  "list_all (\<lambda>x. (\<exists>p. x = EndInput p) \<or> (\<exists>p. x = Kill p SIGTERM)) acts \<Longrightarrow> dispatched acts = []"
  by (induction acts) auto

lemma dispatched_stop_all: "dispatched (snd (stop_all h as)) = []"
  by (rule dispatched_stops) (rule stop_all_only_stops)

lemma dispatched_worker_stop: "dispatched (snd (worker_stop w)) = []"
  by (auto simp: worker_stop_def split: option.splits)

lemma dispatched_worker_stop_eq: "worker_stop w = (w', acts) \<Longrightarrow> dispatched acts = []"
  using dispatched_worker_stop [of w] by simp

lemma dispatched_worker_start_eq: "worker_start e w = (w', acts) \<Longrightarrow> dispatched acts = []"
  by (auto simp: worker_start_def Let_def)

lemma quiet_restartWorker: "quiet s (restartWorker e s i)"
  by (auto simp: quiet_def restartWorker_def Let_def dispatched_append
      dispatched_worker_stop_eq dispatched_worker_start_eq split: prod.splits)

lemma quiet_same: "dispatched acts = [] \<Longrightarrow> quiet s (s, acts)"
  by (simp add: quiet_def)

lemma quiet_deliver: "quiet s (deliver e s i evs)"
proof (induction e s i evs rule: deliver.induct)
  case (1 e s i)
  then show ?case by (simp add: quiet_refl)
next
  case (2 e s i evs)
  then show ?case by simp
next
  case (3 e s i err evs)
  obtain s1 acts where r: "restartWorker e s i = (s1, acts)" by (cases "restartWorker e s i")
  obtain s2 acts' where d: "deliver e s1 i evs = (s2, acts')" by (cases "deliver e s1 i evs")
  from quiet_restartWorker [of s e i] r have "quiet s (s1, acts)" by simp
  moreover from "3.IH" [OF r [symmetric]] d have "quiet s1 (s2, acts')" by simp
  ultimately show ?case using r d by (simp add: quiet_trans)
next
  case (4 e s i evs)
  obtain s1 acts where r: "restartWorker e s i = (s1, acts)" by (cases "restartWorker e s i")
  obtain s2 acts' where d: "deliver e s1 i evs = (s2, acts')" by (cases "deliver e s1 i evs")
  from quiet_restartWorker [of s e i] r have "quiet s (s1, acts)" by simp
  moreover from "4.IH" [OF r [symmetric]] d have "quiet s1 (s2, acts')" by simp
  ultimately show ?case using r d by (simp add: quiet_trans)
qed

lemma quiet_heap: "quiet (s\<lparr>heap := h\<rparr>) r \<Longrightarrow> quiet s r"
  by (simp add: quiet_def)

lemma quiet_on_start_timer: "quiet s (on_start_timer e s a)"
  by (auto simp: on_start_timer_def split: prod.splits intro: quiet_refl quiet_heap quiet_deliver)

lemma quiet_on_process_error: "quiet s (on_process_error e s a err)"
  by (auto simp: on_process_error_def split: prod.splits intro: quiet_refl quiet_heap quiet_deliver)

lemma quiet_on_process_exit: "quiet s (on_process_exit e s a)"
  by (auto simp: on_process_exit_def split: prod.splits intro: quiet_refl quiet_heap quiet_deliver)

lemma quiet_on_kill_timer: "quiet s (on_kill_timer s a)"
  by (auto simp: on_kill_timer_def quiet_def worker_onKillTimer_def split: prod.splits option.splits)

lemma quiet_load_catch: "quiet s (load_catch s err)"
  using dispatched_stop_all [of "heap s" "workers s"]
  by (auto simp: load_catch_def quiet_def dispatched_append split: prod.splits)

lemma quiet_start_workers: "quiet s (start_workers e s is)"
proof (induction e s "is" rule: start_workers.induct)
  case (1 e s)
  then show ?case by (simp add: quiet_refl)
next
  case (2 e s i "is")
  obtain w acts where w: "worker_start e (new_worker i (timeout s)) = (w, acts)"
    by (cases "worker_start e (new_worker i (timeout s))")
  define s1 where "s1 = s\<lparr>heap := heap s @ [w], workers := workers s @ [length (heap s)]\<rparr>"
  obtain s2 acts' where r: "start_workers e s1 is = (s2, acts')"
    by (cases "start_workers e s1 is")
  from w have "dispatched acts = []" by (auto simp: worker_start_def Let_def)
  then have "quiet s (s1, acts)" by (simp add: quiet_def s1_def)
  moreover from "2.IH" [OF refl w [symmetric] s1_def] r have "quiet s1 (s2, acts')" by simp
  ultimately show ?case using w r by (simp add: s1_def [symmetric] quiet_trans)
qed

lemma quiet_isLoading: "quiet (s\<lparr>isLoading := b\<rparr>) r \<Longrightarrow> quiet s r"
  by (simp add: quiet_def)

lemma quiet_load: "quiet s (load e s)"
proof -
  let ?s1 = "s\<lparr>isLoading := True\<rparr>"
  have "quiet s (load_catch ?s1 err)" for err
    by (rule quiet_isLoading [OF quiet_load_catch])
  moreover have "quiet s (start_workers e ?s1 ns)" for ns
    by (rule quiet_isLoading [OF quiet_start_workers])
  ultimately show ?thesis
    by (simp add: load_def Let_def quiet_same)
qed

lemma quiet_load_rejected: "quiet s (load_rejected s err)"
  by (simp add: load_rejected_def quiet_load_catch quiet_refl)

lemma drained_quiet: "quiet s r \<Longrightarrow> drained s r"
  unfolding drained_def quiet_def by (intro exI [of _ 0]) simp

lemma drained_processQueue: "drained s (processQueue s)"
proof -
  from drain_frame [OF refl, of s] obtain h fl st k where
    "fst (drain s (requestQueue s)) =
       s\<lparr>heap := h, inflight := fl, stats := st, requestQueue := drop k (requestQueue s)\<rparr>"
    "k \<le> length (requestQueue s)"
    "dispatched (snd (drain s (requestQueue s))) = map caller (take k (requestQueue s))"
    by blast
  then show ?thesis
    unfolding drained_def processQueue_def by (intro exI [of _ k]) simp
qed

lemma quiet_drained:
  "quiet s (s1, acts) \<Longrightarrow> drained s1 (s2, acts') \<Longrightarrow> drained s (s2, acts @ acts')"
  unfolding drained_def quiet_def by (auto simp: dispatched_append)

lemma drained_then_quiet:
  "drained s (s1, acts) \<Longrightarrow> quiet s1 (s2, acts') \<Longrightarrow> drained s (s2, acts @ acts')"
  unfolding drained_def quiet_def by (auto simp: dispatched_append)

lemma drained_request_completed: "drained s (request_completed gn e s req res)"
proof -
  define s1 where "s1 = s\<lparr>stats := (stats s)\<lparr>completedRequests := completedRequests (stats s) + 1,
                   averageResponseTime :=
                     (averageResponseTime (stats s) * of_int (completedRequests (stats s) + 1 - 1) +
                      of_int (clock e - startTime req)) / of_int (completedRequests (stats s) + 1)\<rparr>\<rparr>"
  obtain s2 acts where d: "processQueue s1 = (s2, acts)" by (cases "processQueue s1")
  define s3 where "s3 = (case cache s2 of
                  None \<Rightarrow> s2
                | Some ch \<Rightarrow>
                    if primary res \<noteq> None
                    then s2\<lparr>cache := Some (cache_set ch (rtext req) res (clock2 e))\<rparr>
                    else s2)"
  have r: "request_completed gn e s req res =
      (s3, ([] @ acts) @ [Settled (caller req) (Resolved (applyOptions gn res (reqOptions req)))])"
    using d by (simp add: request_completed_def Let_def s1_def s3_def)
  have "quiet s (s1, [])" by (simp add: quiet_def s1_def)
  moreover have "drained s1 (s2, acts)" using drained_processQueue [of s1] d by simp
  moreover have "quiet s2 (s3, [Settled (caller req) (Resolved (applyOptions gn res (reqOptions req)))])"
    by (simp add: quiet_def s3_def split: option.splits)
  ultimately show ?thesis
    unfolding r by (blast intro: quiet_drained drained_then_quiet)
qed

lemma drained_settle: "drained s (settle gn e s a out)"
proof (cases "map_of (inflight s) a")
  case None
  then show ?thesis by (simp add: settle_def drained_quiet quiet_refl)
next
  case (Some req)
  define s1 where "s1 = s\<lparr>inflight := remove_first_key a (inflight s)\<rparr>"
  have q1: "quiet s (s1, [])" by (simp add: quiet_def s1_def)
  show ?thesis
  proof (cases out)
    case (Resolved res)
    have "drained s1 (request_completed gn e s1 req res)" by (rule drained_request_completed)
    with q1 have "drained s (request_completed gn e s1 req res)"
      using quiet_drained [of s s1 "[]"] by (cases "request_completed gn e s1 req res") auto
    with Some Resolved show ?thesis by (simp add: settle_def s1_def)
  next
    case (Rejected err)
    obtain s2 acts where f: "request_failed s1 req err = (s2, acts)"
      by (cases "request_failed s1 req err")
    obtain s3 acts' where p: "processQueue s2 = (s3, acts')" by (cases "processQueue s2")
    from f have "quiet s1 (s2, acts)" by (auto simp: request_failed_def quiet_def)
    with q1 have "quiet s (s2, acts)" using quiet_trans [of s s1 "[]" s2 acts] by simp
    moreover from drained_processQueue [of s2] p have "drained s2 (s3, acts')" by simp
    ultimately have "drained s (s3, acts @ acts')" by (rule quiet_drained)
    with Some Rejected f p show ?thesis by (simp add: settle_def s1_def)
  qed
qed

lemma drained_on_worker_settled: "drained s (on_worker_settled gn e s a cb)"
proof (cases "a < length (heap s) \<and> map_of (inflight s) a \<noteq> None")
  case False
  then show ?thesis by (auto simp: on_worker_settled_def drained_quiet quiet_refl)
next
  case True
  obtain w' evs out where c: "cb (heap s ! a) = (w', evs, out)" by (cases "cb (heap s ! a)")
  define s1 where "s1 = s\<lparr>heap := (heap s)[a := w']\<rparr>"
  obtain s2 acts where d: "deliver e s1 (wid w') evs = (s2, acts)"
    by (cases "deliver e s1 (wid w') evs")
  obtain s3 acts' where t: "settle gn e s2 a out = (s3, acts')"
    by (cases "settle gn e s2 a out")
  from quiet_deliver [of s1 e "wid w'" evs] d have "quiet s1 (s2, acts)" by simp
  then have "quiet s (s2, acts)" unfolding s1_def by (rule quiet_heap)
  moreover from drained_settle [of s2 gn e a out] t have "drained s2 (s3, acts')" by simp
  ultimately have "drained s (s3, acts @ acts')" by (rule quiet_drained)
  with True c d t show ?thesis by (simp add: on_worker_settled_def s1_def)
qed

lemma drained_load_resolved: "drained s (load_resolved s)"
proof (cases "isLoading s")
  case False
  then show ?thesis by (simp add: load_resolved_def drained_quiet quiet_refl)
next
  case True
  define s1 where "s1 = s\<lparr>isLoading := False, isLoaded := True,
                    stats := (stats s)\<lparr>statPoolSize := poolSize s\<rparr>\<rparr>"
  obtain s2 acts where p: "processQueue s1 = (s2, acts)" by (cases "processQueue s1")
  have "quiet s (s1, [])" by (simp add: quiet_def s1_def)
  moreover from drained_processQueue [of s1] p have "drained s1 (s2, acts)" by simp
  ultimately have "drained s (s2, [] @ acts)" by (rule quiet_drained)
  moreover have "quiet s2 (s2, [LoadSettled None])" by (simp add: quiet_def)
  ultimately have "drained s (s2, ([] @ acts) @ [LoadSettled None])" by (rule drained_then_quiet)
  with True p show ?thesis by (simp add: load_resolved_def s1_def)
qed

lemma qstep_drained: "drained s r \<Longrightarrow> qstep s cs r"
  unfolding drained_def qstep_def
  by (elim exE, rule_tac x = k in exI, rule_tac x = "[]" in exI, rule_tac x = "[]" in exI) auto

lemma qstep_quiet: "quiet s r \<Longrightarrow> qstep s cs r"
  by (rule qstep_drained [OF drained_quiet])

lemma dispatched_rejections:
  "dispatched (map (\<lambda>request. Settled (caller request) (Rejected err)) q) = []"
  by (induction q) auto

lemma qstep_unload: "qstep s cs (unload s)"
proof -
  have "dispatched (snd (unload s)) = []"
    unfolding unload_fields by (simp add: dispatched_append dispatched_stop_all dispatched_rejections)
  moreover have "requestQueue (fst (unload s)) = []" by (rule unload_fields)
  moreover have "maxQueueSize (fst (unload s)) = maxQueueSize s"
    by (simp add: unload_def split: prod.splits)
  ultimately show ?thesis
    unfolding qstep_def
    by (intro exI [of _ 0] exI [of _ "[]"]) simp
qed

lemma qstep_detect: "qstep s [c] (detect gn e s c t options)"
proof -
  obtain cached s0 where s0: "(case cache s of
                  None \<Rightarrow> (None, s)
                | Some ch \<Rightarrow>
                    (let (r, ch') = cache_get ch t (clock e) in (r, s\<lparr>cache := Some ch'\<rparr>))) =
                (cached, s0)"
    by (metis prod.collapse)
  then have q0: "requestQueue s0 = requestQueue s" "maxQueueSize s0 = maxQueueSize s"
    by (auto split: option.splits prod.splits)
  consider (blank) "t = [] \<or> trim t = []" | (unloaded) "\<not> (t = [] \<or> trim t = [])" "\<not> isLoaded s"
    | (hit) r where "\<not> (t = [] \<or> trim t = [])" "isLoaded s" "cached = Some r"
    | (miss) "\<not> (t = [] \<or> trim t = [])" "isLoaded s" "cached = None"
    by (cases cached) auto
  then show ?thesis
  proof cases
    case blank
    then have "quiet s (detect gn e s c t options)" by (auto simp: detect_def quiet_def)
    then show ?thesis by (rule qstep_quiet)
  next
    case unloaded
    then have "quiet s (detect gn e s c t options)" by (auto simp: detect_def quiet_def)
    then show ?thesis by (rule qstep_quiet)
  next
    case hit
    with s0 have "detect gn e s c t options =
        (s0, [Settled c (Resolved (applyOptions gn r options))])"
      by (simp add: detect_def)
    with q0 have "quiet s (detect gn e s c t options)" by (simp add: quiet_def)
    then show ?thesis by (rule qstep_quiet)
  next
    case miss
    define s1 where "s1 = s0\<lparr>stats := (stats s0)\<lparr>totalRequests := totalRequests (stats s0) + 1\<rparr>\<rparr>"
    define rq where "rq = \<lparr>rtext = t, caller = c, reqOptions = options, startTime = clock2 e\<rparr>"
    have q1: "requestQueue s1 = requestQueue s" "maxQueueSize s1 = maxQueueSize s"
      using q0 by (simp_all add: s1_def)
    have d: "detect gn e s c t options =
       (case getAvailableWorker s1 of
                      Some a \<Rightarrow>
                        (let (s2, acts, ok) = executeRequest s1 a rq
                         in if ok then (s2, acts)
                            else (let (s3, acts') = processQueue s2 in (s3, acts @ acts')))
                    | None \<Rightarrow>
                        if of_nat (length (requestQueue s1)) \<ge> maxQueueSize s1
                        then (s1, [Settled c (Rejected (QueueFull (maxQueueSize s1)))])
                        else (s1\<lparr>stats := (stats s1)\<lparr>queuedRequests :=
                                                       queuedRequests (stats s1) + 1\<rparr>,
                                 requestQueue := requestQueue s1 @ [rq]\<rparr>,
                              [Enqueued c]))"
      unfolding s1_def rq_def using miss s0 by (simp add: detect_def Let_def)
    show ?thesis
    proof (cases "getAvailableWorker s1")
      case None
      show ?thesis
      proof (cases "of_nat (length (requestQueue s1)) \<ge> maxQueueSize s1")
        case True
        with None d q1 have "quiet s (detect gn e s c t options)" by (simp add: quiet_def)
        then show ?thesis by (rule qstep_quiet)
      next
        case False
        with None d q1 show ?thesis
          unfolding qstep_def
          by (intro exI [of _ 0] exI [of _ "[]"] exI [of _ "[rq]"]) (simp add: rq_def)
      qed
    next
      case (Some a)
      obtain s2 acts ok where ex: "executeRequest s1 a rq = (s2, acts, ok)"
        by (cases "executeRequest s1 a rq")
      from executeRequest_frame [of s1 a rq] ex obtain h fl st where
        s2: "s2 = s1\<lparr>heap := h, inflight := fl, stats := st\<rparr>" by auto
      from executeRequest_actions [of s1 a rq] ex have a: "dispatched acts = [caller rq]" by simp
      have q2: "requestQueue s2 = requestQueue s" "maxQueueSize s2 = maxQueueSize s"
        using q1 by (simp_all add: s2)
      show ?thesis
      proof (cases ok)
        case True
        with Some d ex have r: "detect gn e s c t options = (s2, acts)" by simp
        show ?thesis
          unfolding qstep_def r using a q2
          by (intro exI [of _ 0] exI [of _ "[c]"] exI [of _ "[]"]) (simp add: rq_def)
      next
        case False
        obtain s3 acts' where p: "processQueue s2 = (s3, acts')" by (cases "processQueue s2")
        from drained_processQueue [of s2] p obtain k where
          k: "k \<le> length (requestQueue s2)" "requestQueue s3 = drop k (requestQueue s2)"
             "dispatched acts' = map caller (take k (requestQueue s2))"
             "maxQueueSize s3 = maxQueueSize s2"
          by (auto simp: drained_def)
        from False Some d ex p have r: "detect gn e s c t options = (s3, acts @ acts')" by simp
        show ?thesis
          unfolding qstep_def r using a q2 k
          by (intro exI [of _ k] exI [of _ "[c]"] exI [of _ "[]"])
            (simp add: rq_def dispatched_append)
      qed
    qed
  qed
qed

lemma qstep_step: "qstep s (ev_callers (snd ev)) (step gn s ev)"
proof (cases "snd ev")
  case (Detect c t options)
  then show ?thesis by (simp add: step_def qstep_detect)
qed (simp_all add: step_def qstep_quiet qstep_drained qstep_unload quiet_load quiet_load_rejected
    drained_load_resolved quiet_on_start_timer quiet_on_process_error quiet_on_process_exit
    drained_on_worker_settled quiet_on_kill_timer drained_processQueue quiet_same
    quiet_restartWorker)

subsection \<open>The bound of the queue\<close>

lemma whole_bound_below:
  assumes "(m::rat) \<in> \<int>" "of_nat n < m + 1"
  shows "of_nat n \<le> m"
proof -
  from assms(1) obtain z where z: "m = of_int z" by (rule Ints_cases)
  from assms(2) have "(of_int (int n) :: rat) < of_int (z + 1)" unfolding z by simp
  then have "int n < z + 1" by (simp only: of_int_less_iff)
  then have "int n \<le> z" by simp
  then have "(of_int (int n) :: rat) \<le> of_int z" by (simp only: of_int_le_iff)
  then show ?thesis unfolding z by simp
qed

lemma run_bound:
  "maxQueueSize s \<in> \<int> \<Longrightarrow> of_nat (length (requestQueue s)) \<le> maxQueueSize s \<Longrightarrow>
     of_nat (length (requestQueue (fst (run gn s evs)))) \<le> maxQueueSize s \<and>
     maxQueueSize (fst (run gn s evs)) = maxQueueSize s"
proof (induction evs arbitrary: s)
  case Nil
  then show ?case by simp
next
  case (Cons ev evs)
  obtain s1 acts where st: "step gn s ev = (s1, acts)" by (cases "step gn s ev")
  obtain s2 acts' where r: "run gn s1 evs = (s2, acts')" by (cases "run gn s1 evs")
  from qstep_step [of s ev gn] st
  have m: "maxQueueSize s1 = maxQueueSize s"
    and l: "length (requestQueue s1) \<le> length (requestQueue s) \<or>
            of_nat (length (requestQueue s1)) < maxQueueSize s + 1"
    by (auto simp: qstep_def)
  from l have "of_nat (length (requestQueue s1)) \<le> maxQueueSize s"
  proof
    assume "length (requestQueue s1) \<le> length (requestQueue s)"
    then have "(of_nat (length (requestQueue s1)) :: rat) \<le> of_nat (length (requestQueue s))"
      by (simp only: of_nat_le_iff)
    with Cons.prems(2) show ?thesis by simp
  next
    assume "of_nat (length (requestQueue s1)) < maxQueueSize s + 1"
    with Cons.prems(1) show ?thesis by (rule whole_bound_below)
  qed
  with m have b: "of_nat (length (requestQueue s1)) \<le> maxQueueSize s1" by simp
  from Cons.prems(1) m have i: "maxQueueSize s1 \<in> \<int>" by simp
  from Cons.IH [OF i b] r m show ?case using st by simp
qed

lemma detect_full:
  assumes "trim t \<noteq> []" "isLoaded s" "cached_result s t (clock e) = None"
    "getAvailableWorker s = None" "of_nat (length (requestQueue s)) \<ge> maxQueueSize s"
  shows "detect gn e s c t options =
     (s\<lparr>cache := (case cache s of None \<Rightarrow> None
                     | Some ch \<Rightarrow> Some (snd (cache_get ch t (clock e)))),
        stats := (stats s)\<lparr>totalRequests := totalRequests (stats s) + 1\<rparr>\<rparr>,
      [Settled c (Rejected (QueueFull (maxQueueSize s)))])"
proof -
  from assms(1) have ne: "t \<noteq> []" by (auto simp: trim_def)
  show ?thesis
  proof (cases "cache s")
    case None
    with assms ne show ?thesis
      by (simp add: detect_def getAvailableWorker_def)
  next
    case (Some ch)
    obtain r ch' where g: "cache_get ch t (clock e) = (r, ch')" by (cases "cache_get ch t (clock e)")
    with assms(3) Some have "r = None" by (simp add: cached_result_def)
    with assms ne Some g show ?thesis
      by (simp add: detect_def getAvailableWorker_def)
  qed
qed

lemma fractional_run:
  "map caller (requestQueue (fst (run gn (new_detector fractional_queue_options) four_calls))) =
     [2, 3, 4]"
  by code_simp

lemma overload_run:
  "fst (run gn (new_detector (small_pool_options\<lparr>optCache := Some True\<rparr>)) overload_calls) =
     overloaded_state"
  by code_simp

lemma cache_hit_when_full:
  "isLoaded overloaded_state \<and> getAvailableWorker overloaded_state = None \<and>
   of_nat (length (requestQueue overloaded_state)) = maxQueueSize overloaded_state \<and>
   snd (detect id (env_at 1) overloaded_state 5 ''Hello world'' no_options) =
     [Settled 5 (Resolved two_labels)]"
  by code_simp

text \<open>
  Claim C1, as the claim states it, fails: the cache is consulted before the queue. With
  a pool of one worker, busy, and a queue of two holding two requests, a call of
  \<open>detect\<close> with a text whose result is cached is answered from the cache and is not
  rejected. The state is the one reached by loading, one answered call for
  \<open>Hello world\<close> and three more calls. In the same state a text of one space, which is
  not empty, is answered with the empty result. A detector made with a
  \<open>maxQueueSize\<close> of -1 keeps that value, which its empty queue exceeds. And a
  \<open>maxQueueSize\<close> that is not a whole number is exceeded: with a pool of one and a
  \<open>maxQueueSize\<close> of 2.5, four calls in a row after loading leave three requests in the
  queue, since the queue of two has not reached the bound.
\<close>

theorem detect_cache_hit_when_queue_full:
  "fst (run id (new_detector (small_pool_options\<lparr>optCache := Some True\<rparr>)) overload_calls) =
     overloaded_state \<and>
   isLoaded overloaded_state \<and> getAvailableWorker overloaded_state = None \<and>
   of_nat (length (requestQueue overloaded_state)) = maxQueueSize overloaded_state \<and>
   snd (detect id (env_at 1) overloaded_state 5 ''Hello world'' no_options) =
     [Settled 5 (Resolved two_labels)] \<and>
   snd (detect id (env_at 1) overloaded_state 6 [CHR '' ''] no_options) =
     [Settled 6 (Resolved empty_result)] \<and>
   maxQueueSize (new_detector negative_queue_options) <
     of_nat (length (requestQueue (new_detector negative_queue_options))) \<and>
   maxQueueSize (new_detector fractional_queue_options) = 5 / 2 \<and>
   map caller (requestQueue (fst (run id (new_detector fractional_queue_options) four_calls))) =
     [2, 3, 4] \<and>
   maxQueueSize (new_detector fractional_queue_options) <
     of_nat (length (requestQueue (fst (run id (new_detector fractional_queue_options)
       four_calls))))"
proof -
  have blank: "snd (detect id (env_at 1) overloaded_state 6 [CHR '' ''] no_options) =
      [Settled 6 (Resolved empty_result)]"
    by (simp add: detect_def trim_def isWhiteSpace_def)
  have neg: "maxQueueSize (new_detector negative_queue_options) <
      of_nat (length (requestQueue (new_detector negative_queue_options)))"
    by (simp add: new_detector_def negative_queue_options_def default_options_def
        or_default_def)
  have fr: "maxQueueSize (new_detector fractional_queue_options) = 5 / 2"
    by (simp add: new_detector_def fractional_queue_options_def small_pool_options_def
        default_options_def or_default_def)
  have "length (map caller (requestQueue (fst (run id (new_detector fractional_queue_options)
      four_calls)))) = 3"
    unfolding fractional_run by simp
  then have len: "length (requestQueue (fst (run id (new_detector fractional_queue_options)
      four_calls))) = 3"
    by simp
  have over: "maxQueueSize (new_detector fractional_queue_options) <
      of_nat (length (requestQueue (fst (run id (new_detector fractional_queue_options)
        four_calls))))"
    unfolding len fr by simp
  from overload_run [of id] cache_hit_when_full blank neg fr fractional_run [of id] over
  show ?thesis by blast
qed

text \<open>
  Claim C1, amended. When \<open>detect\<close> is called with a text that is not blank, the pool
  loaded, no live cache entry for the text (or no cache), no ready idle worker and a
  queue that holds \<open>maxQueueSize\<close> requests or more, the call is rejected at once with
  the queue-full error: the queue, the calls in flight, the workers and the count of
  queued requests are as before. Hence, when \<open>maxQueueSize\<close> is a whole number, a queue
  within \<open>maxQueueSize\<close> stays within it in every run, and a new detector whose
  \<open>maxQueueSize\<close> is a whole number that is not negative never holds more than
  \<open>maxQueueSize\<close> requests. With a pool of one and a queue of two, four calls
  in a row after loading give one dispatch, two queued requests and one rejection with
  the queue-full error.
\<close>

theorem detect_queue_full_fails_fast:
  "(trim t \<noteq> [] \<and> isLoaded s \<and> cached_result s t (clock e) = None \<and>
    getAvailableWorker s = None \<and> of_nat (length (requestQueue s)) \<ge> maxQueueSize s \<longrightarrow>
      snd (detect gn e s c t options) = [Settled c (Rejected (QueueFull (maxQueueSize s)))] \<and>
      requestQueue (fst (detect gn e s c t options)) = requestQueue s \<and>
      inflight (fst (detect gn e s c t options)) = inflight s \<and>
      heap (fst (detect gn e s c t options)) = heap s \<and>
      queuedRequests (stats (fst (detect gn e s c t options))) = queuedRequests (stats s)) \<and>
   (maxQueueSize s \<in> \<int> \<and> of_nat (length (requestQueue s)) \<le> maxQueueSize s \<longrightarrow>
      of_nat (length (requestQueue (fst (run gn s evs)))) \<le> maxQueueSize s \<and>
      maxQueueSize (fst (run gn s evs)) = maxQueueSize s) \<and>
   (maxQueueSize (new_detector opts) \<in> \<int> \<and> 0 \<le> maxQueueSize (new_detector opts) \<longrightarrow>
      of_nat (length (requestQueue (fst (run gn (new_detector opts) evs)))) \<le>
        maxQueueSize (new_detector opts)) \<and>
   run gn (new_detector small_pool_options) four_calls =
     (busy_state,
      [Spawned 0 100, LoadSettled None, Dispatched 1 0, WriteLine 100 (''Test 0'' @ [CHR 0x0A]),
       Enqueued 2, Enqueued 3, Settled 4 (Rejected (QueueFull 2))])"
proof (intro conjI impI)
  assume "trim t \<noteq> [] \<and> isLoaded s \<and> cached_result s t (clock e) = None \<and>
    getAvailableWorker s = None \<and> of_nat (length (requestQueue s)) \<ge> maxQueueSize s"
  then have d: "detect gn e s c t options =
     (s\<lparr>cache := (case cache s of None \<Rightarrow> None
                     | Some ch \<Rightarrow> Some (snd (cache_get ch t (clock e)))),
        stats := (stats s)\<lparr>totalRequests := totalRequests (stats s) + 1\<rparr>\<rparr>,
      [Settled c (Rejected (QueueFull (maxQueueSize s)))])"
    by (intro detect_full) auto
  show "snd (detect gn e s c t options) = [Settled c (Rejected (QueueFull (maxQueueSize s)))]"
    "requestQueue (fst (detect gn e s c t options)) = requestQueue s"
    "inflight (fst (detect gn e s c t options)) = inflight s"
    "heap (fst (detect gn e s c t options)) = heap s"
    "queuedRequests (stats (fst (detect gn e s c t options))) = queuedRequests (stats s)"
    unfolding d by simp_all
next
  assume a: "maxQueueSize s \<in> \<int> \<and> of_nat (length (requestQueue s)) \<le> maxQueueSize s"
  then have a1: "maxQueueSize s \<in> \<int>" and a2: "of_nat (length (requestQueue s)) \<le> maxQueueSize s"
    by blast+
  from run_bound [OF a1 a2]
  show "of_nat (length (requestQueue (fst (run gn s evs)))) \<le> maxQueueSize s"
    "maxQueueSize (fst (run gn s evs)) = maxQueueSize s"
    by blast+
next
  assume a: "maxQueueSize (new_detector opts) \<in> \<int> \<and> 0 \<le> maxQueueSize (new_detector opts)"
  then have a1: "maxQueueSize (new_detector opts) \<in> \<int>" by blast
  from a have "of_nat (length (requestQueue (new_detector opts))) \<le> maxQueueSize (new_detector opts)"
    by (simp add: new_detector_def)
  from run_bound [OF a1 this]
  show "of_nat (length (requestQueue (fst (run gn (new_detector opts) evs)))) \<le>
      maxQueueSize (new_detector opts)"
    by blast
next
  show "run gn (new_detector small_pool_options) four_calls =
     (busy_state,
      [Spawned 0 100, LoadSettled None, Dispatched 1 0, WriteLine 100 (''Test 0'' @ [CHR 0x0A]),
       Enqueued 2, Enqueued 3, Settled 4 (Rejected (QueueFull 2))])"
    by (rule four_calls_run)
qed

theorem detect_queue_full_fails_fast_witness:
  "trim ''Test 3'' \<noteq> [] \<and> isLoaded busy_state \<and>
   cached_result busy_state ''Test 3'' (clock (env_at 0)) = None \<and>
   getAvailableWorker busy_state = None \<and>
   of_nat (length (requestQueue busy_state)) \<ge> maxQueueSize busy_state \<and>
   snd (detect id (env_at 0) busy_state 4 ''Test 3'' no_options) =
     [Settled 4 (Rejected (QueueFull 2))] \<and>
   requestQueue (fst (detect id (env_at 0) busy_state 4 ''Test 3'' no_options)) =
     requestQueue busy_state \<and>
   maxQueueSize busy_state \<in> \<int> \<and>
   of_nat (length (requestQueue busy_state)) \<le> maxQueueSize busy_state \<and>
   of_nat (length (requestQueue (fst (run id busy_state [(env_at 0, Unload)])))) \<le>
     maxQueueSize busy_state \<and>
   maxQueueSize (new_detector small_pool_options) \<in> \<int> \<and>
   0 \<le> maxQueueSize (new_detector small_pool_options) \<and>
   of_nat (length (requestQueue (fst (run id (new_detector small_pool_options) four_calls)))) \<le>
     maxQueueSize (new_detector small_pool_options)"
proof -
  have h: "trim ''Test 3'' \<noteq> [] \<and> isLoaded busy_state \<and>
      cached_result busy_state ''Test 3'' (clock (env_at 0)) = None \<and>
      getAvailableWorker busy_state = None \<and>
      of_nat (length (requestQueue busy_state)) \<ge> maxQueueSize busy_state"
    by (simp add: trim_def isWhiteSpace_def busy_state_def cached_result_def
        getAvailableWorker_def available_def)
  have b: "maxQueueSize busy_state \<in> \<int> \<and>
      of_nat (length (requestQueue busy_state)) \<le> maxQueueSize busy_state"
    by (simp add: busy_state_def)
  have m: "maxQueueSize busy_state = 2" by (simp add: busy_state_def)
  have n: "maxQueueSize (new_detector small_pool_options) \<in> \<int> \<and>
      0 \<le> maxQueueSize (new_detector small_pool_options)"
    by (simp add: new_detector_def small_pool_options_def default_options_def or_default_def)
  note A = detect_queue_full_fails_fast
    [of "''Test 3''" busy_state "env_at 0" id 4 no_options "[(env_at 0, Unload)]"
      small_pool_options]
  note B = detect_queue_full_fails_fast
    [of _ _ _ id _ _ four_calls small_pool_options]
  from A h have 1: "snd (detect id (env_at 0) busy_state 4 ''Test 3'' no_options) =
      [Settled 4 (Rejected (QueueFull (maxQueueSize busy_state)))]"
    and 2: "requestQueue (fst (detect id (env_at 0) busy_state 4 ''Test 3'' no_options)) =
      requestQueue busy_state"
    by blast+
  from A b have 3: "of_nat (length (requestQueue (fst (run id busy_state [(env_at 0, Unload)])))) \<le>
      maxQueueSize busy_state"
    by blast
  from B n have 4:
    "of_nat (length (requestQueue (fst (run id (new_detector small_pool_options) four_calls)))) \<le>
     maxQueueSize (new_detector small_pool_options)"
    by blast
  from h b n 1 2 3 4 show ?thesis unfolding m by blast
qed

subsection \<open>Order of dispatch\<close>













end
